theory Spec2Isabelle
  imports Main
begin

section \<open>The values of the runtime\<close>

text \<open>
  The cache facade of \<^verbatim>\<open>src/src/cache.ts\<close> is a TypeScript class over an ioredis client.
  Its methods are modelled below as functions over an explicit state; this section models
  the part of the JavaScript runtime they call: the values, \<^verbatim>\<open>String(x)\<close>,
  \<^verbatim>\<open>JSON.stringify\<close> and \<^verbatim>\<open>JSON.parse\<close>.

  A JavaScript string is modelled as a HOL \<open>string\<close>: a sequence of code units below 256.

  A number of the runtime is a double. The model does no floating-point arithmetic; it
  names the doubles as follows.
  \<^item> \<open>Whole n\<close> is the whole number \<open>n\<close>, for \<open>n\<close> of at most \<open>2^53 - 1\<close> in magnitude (a
    safe integer: every one of them is a double, and \<^verbatim>\<open>String\<close> prints it in decimal).
  \<^item> \<open>Float t\<close> is the finite number, other than a safe integer and the negative zero,
    that \<^verbatim>\<open>String\<close> prints as the text \<open>t\<close>: \<open>Float ''0.5''\<close>, \<open>Float ''1e+21''\<close>,
    \<open>Float ''9007199254740992''\<close>. No two doubles are printed alike, so the text names
    the number.
  \<^item> \<open>NegZero\<close>, \<open>NaN\<close>, \<open>PosInfinity\<close>, \<open>NegInfinity\<close> are \<^verbatim>\<open>-0\<close>, \<^verbatim>\<open>NaN\<close>,
    \<^verbatim>\<open>Infinity\<close> and \<^verbatim>\<open>-Infinity\<close>.

  Which double a number token of a JSON text denotes is the runtime's conversion from
  decimal text to the nearest double. The model computes it for the plain safe integers
  and for \<^verbatim>\<open>-0\<close>; for every other token (a fraction, an exponent, more digits than a safe
  integer has) it is a parameter of the model, the \<open>reader\<close>: the reader maps the text of
  the token to the number, or to \<open>None\<close> where the value is left open. Every function
  that reads or prints a number takes the reader, and every theorem holds for every reader.
  A term \<open>Whole n\<close> beyond the safe range, or \<open>Float t\<close> for a text that the reader
  does not read as \<open>Float t\<close>, is no number of the runtime, and the functions of the
  model give no result for it.
\<close>

datatype js_number = Whole int | Float string | NegZero | NaN | PosInfinity | NegInfinity

type_synonym reader = "string \<Rightarrow> js_number option"

definition safe_integer :: "int \<Rightarrow> bool" where
  "safe_integer n = (- 9007199254740991 \<le> n \<and> n \<le> 9007199254740991)"

text \<open>
  \<open>Serializable\<close> (cache.ts, line 5) is
  \<^verbatim>\<open>string | number | boolean | Record<string, any> | Array<any> | null\<close>.
  An object is the list of its own properties in property order. \<open>JBigInt\<close> stands for
  the values that \<^verbatim>\<open>any\<close> lets into an array or an object and that
  \<^verbatim>\<open>JSON.stringify\<close> refuses with a TypeError.
\<close>

datatype js_value =
    JNull
  | JBool bool
  | JNum js_number
  | JStr string
  | JArr "js_value list"
  | JObj "(string \<times> js_value) list"
  | JBigInt int

text \<open>
  An \<^verbatim>\<open>Error\<close> object, as far as the code reads it: its \<^verbatim>\<open>message\<close>. What the client
  rejects with and what the runtime throws are such objects.
\<close>

datatype js_error = Error (error_message: string)

text \<open>
  How a call of the runtime ends: it returns, or it throws. \<open>OutOfModel\<close>: the argument
  is no value of the runtime (see above), and the model gives no result.
\<close>

datatype 'a outcome = Returned 'a | Thrown js_error | OutOfModel

subsection \<open>Truthiness\<close>

text \<open>
  \<^verbatim>\<open>ToBoolean\<close> of a number: false for the two zeros and NaN. A \<open>Float\<close> is not a
  safe integer, so it is not zero.
\<close>

fun truthy_number :: "js_number \<Rightarrow> bool" where
  "truthy_number (Whole n) = (n \<noteq> 0)"
| "truthy_number (Float t) = True"
| "truthy_number NegZero = False"
| "truthy_number NaN = False"
| "truthy_number PosInfinity = True"
| "truthy_number NegInfinity = True"

subsection \<open>The tokens of a JSON text\<close>

text \<open>
  \<^verbatim>\<open>JSON.parse\<close> is modelled in two passes over the grammar of ECMA-404: the text is cut
  into tokens, and the tokens are read by a machine with a stack of open arrays and objects.
  Both passes accept exactly the JSON texts. The tokens come first, because a number that
  is no safe integer is named by the text of its token.

  A number token that is a plain safe integer carries its value (\<open>NumTok\<close>), the token
  \<^verbatim>\<open>-0\<close> is \<open>MinusZero\<close>, and every other number token carries its text
  (\<open>OtherNum\<close>), for the reader. A string literal that holds a code unit beyond 255
  (\<open>OtherStr\<close>) denotes a string outside the model.
\<close>

datatype token =
    LBrace | RBrace | LBracket | RBracket | Comma | Colon
  | StrTok string | NumTok int | MinusZero | OtherNum string
  | TrueTok | FalseTok | NullTok
  | OtherStr

definition is_ws :: "char \<Rightarrow> bool" where
  "is_ws c = (c = CHR 0x20 \<or> c = CHR 0x09 \<or> c = CHR 0x0A \<or> c = CHR 0x0D)"

definition is_digit :: "char \<Rightarrow> bool" where
  "is_digit c = (48 \<le> (of_char c :: nat) \<and> (of_char c :: nat) \<le> 57)"

definition digit_val :: "char \<Rightarrow> int" where
  "digit_val c = int (of_char c) - 48"

definition digits_val :: "string \<Rightarrow> int" where
  "digits_val ds = foldl (\<lambda>n c. 10 * n + digit_val c) 0 ds"

definition hex_val :: "char \<Rightarrow> nat option" where
  "hex_val c =
     (let n = (of_char c :: nat)
      in if 48 \<le> n \<and> n \<le> 57 then Some (n - 48)
         else if 97 \<le> n \<and> n \<le> 102 then Some (n - 87)
         else if 65 \<le> n \<and> n \<le> 70 then Some (n - 55)
         else None)"

definition code_unit :: "char \<Rightarrow> char \<Rightarrow> char \<Rightarrow> char \<Rightarrow> nat option" where
  "code_unit a b c d =
     (case hex_val a of None \<Rightarrow> None | Some x \<Rightarrow>
     (case hex_val b of None \<Rightarrow> None | Some y \<Rightarrow>
     (case hex_val c of None \<Rightarrow> None | Some z \<Rightarrow>
     (case hex_val d of None \<Rightarrow> None | Some w \<Rightarrow>
        Some (((x * 16 + y) * 16 + z) * 16 + w)))))"

definition unescape :: "char \<Rightarrow> char option" where
  "unescape e =
     (if e = CHR 0x22 then Some (CHR 0x22)
      else if e = CHR 0x5C then Some (CHR 0x5C)
      else if e = CHR ''/'' then Some (CHR ''/'')
      else if e = CHR ''b'' then Some (CHR 0x08)
      else if e = CHR ''f'' then Some (CHR 0x0C)
      else if e = CHR ''n'' then Some (CHR 0x0A)
      else if e = CHR ''r'' then Some (CHR 0x0D)
      else if e = CHR ''t'' then Some (CHR 0x09)
      else None)"

text \<open>
  A string literal after its opening quotation mark: the string it denotes (\<open>None\<close> when
  it holds a code unit beyond 255) and the text after the closing quotation mark. The outer
  \<open>None\<close> is a syntax error.
\<close>

definition prepend :: "char option \<Rightarrow> (string option \<times> string) option \<Rightarrow> (string option \<times> string) option" where
  "prepend u r =
     (case r of
        None \<Rightarrow> None
      | Some (s, rest) \<Rightarrow>
          Some (case u of None \<Rightarrow> None | Some c \<Rightarrow> map_option (Cons c) s, rest))"

fun scan_string :: "string \<Rightarrow> (string option \<times> string) option" where
  "scan_string [] = None"
| "scan_string (c # cs) =
     (if c = CHR 0x22 then Some (Some [], cs)
      else if c = CHR 0x5C then
        (case cs of
           [] \<Rightarrow> None
         | e # es \<Rightarrow>
             if e = CHR ''u'' then
               (case es of
                  h1 # h2 # h3 # h4 # rest \<Rightarrow>
                    (case code_unit h1 h2 h3 h4 of
                       None \<Rightarrow> None
                     | Some n \<Rightarrow>
                         prepend (if n < 256 then Some (char_of n) else None) (scan_string rest))
                | _ \<Rightarrow> None)
             else
               (case unescape e of
                  None \<Rightarrow> None
                | Some x \<Rightarrow> prepend (Some x) (scan_string es)))
      else if (of_char c :: nat) < 32 then None
      else prepend (Some c) (scan_string cs))"

text \<open>
  A number token: an optional minus, the integer part (a single zero, or digits that do
  not start with zero), an optional fraction, an optional exponent. The text of the token
  is what the scanner has consumed.
\<close>

definition scan_fraction :: "string \<Rightarrow> (bool \<times> string) option" where
  "scan_fraction s =
     (case s of
        [] \<Rightarrow> Some (False, s)
      | c # cs \<Rightarrow>
          if c = CHR ''.'' then
            (if takeWhile is_digit cs = [] then None else Some (True, dropWhile is_digit cs))
          else Some (False, s))"

definition scan_exponent :: "string \<Rightarrow> (bool \<times> string) option" where
  "scan_exponent s =
     (case s of
        [] \<Rightarrow> Some (False, s)
      | c # cs \<Rightarrow>
          if c = CHR ''e'' \<or> c = CHR ''E'' then
            (let ds = (case cs of
                         [] \<Rightarrow> cs
                       | x # xs \<Rightarrow> if x = CHR ''+'' \<or> x = CHR ''-'' then xs else cs)
             in if takeWhile is_digit ds = [] then None else Some (True, dropWhile is_digit ds))
          else Some (False, s))"

definition scan_number :: "string \<Rightarrow> (token \<times> string) option" where
  "scan_number s =
     (let neg = (s \<noteq> [] \<and> hd s = CHR ''-'');
          s1 = (if neg then tl s else s);
          ds = (if s1 \<noteq> [] \<and> hd s1 = CHR ''0'' then ''0'' else takeWhile is_digit s1);
          n = digits_val ds
      in if ds = [] then None
         else
           (case scan_fraction (drop (length ds) s1) of
              None \<Rightarrow> None
            | Some (frac, s2) \<Rightarrow>
                (case scan_exponent s2 of
                   None \<Rightarrow> None
                 | Some (ex, s3) \<Rightarrow>
                     Some (if frac \<or> ex \<or> 9007199254740991 < n
                             then OtherNum (take (length s - length s3) s)
                           else if neg \<and> n = 0 then MinusZero
                           else NumTok (if neg then - n else n),
                           s3))))"

lemma scan_string_shorter: "scan_string cs = Some (s, r) \<Longrightarrow> length r < length cs"
proof (induction cs arbitrary: s r rule: scan_string.induct)
  case 1
  then show ?case by simp
next
  case (2 c cs)
  show ?case
    using "2.prems" "2.IH"
    by (fastforce simp: prepend_def split: if_splits list.splits option.splits prod.splits)
qed

lemma scan_fraction_shorter: "scan_fraction s = Some (b, r) \<Longrightarrow> length r \<le> length s"
  by (auto simp: scan_fraction_def le_SucI length_dropWhile_le split: list.splits if_splits)

lemma scan_exponent_shorter: "scan_exponent s = Some (b, r) \<Longrightarrow> length r \<le> length s"
  by (auto simp: scan_exponent_def Let_def le_SucI length_dropWhile_le
      intro: order_trans [OF length_dropWhile_le]
      split: list.splits if_splits)

lemma scan_number_shorter:
  assumes "scan_number s = Some (t, r)"
  shows "length r < length s"
proof -
  define neg where "neg = (s \<noteq> [] \<and> hd s = CHR ''-'')"
  define s1 where "s1 = (if neg then tl s else s)"
  define ds where "ds = (if s1 \<noteq> [] \<and> hd s1 = CHR ''0'' then ''0'' else takeWhile is_digit s1)"
  from assms have ds: "ds \<noteq> []"
    by (auto simp: scan_number_def Let_def neg_def s1_def ds_def split: if_splits)
  from assms obtain frac s2 ex where
    f: "scan_fraction (drop (length ds) s1) = Some (frac, s2)" and
    e: "scan_exponent s2 = Some (ex, r)"
    by (auto simp: scan_number_def Let_def neg_def s1_def ds_def
        split: if_splits option.splits prod.splits)
  have "length ds \<le> length s1"
    by (cases s1) (auto simp: ds_def length_takeWhile_le)
  moreover have "length s1 \<le> length s"
    by (simp add: s1_def)
  moreover have "0 < length ds"
    using ds by simp
  moreover have "length r \<le> length s1 - length ds"
    using scan_fraction_shorter [OF f] scan_exponent_shorter [OF e] by simp
  ultimately show ?thesis by linarith
qed

function scan :: "string \<Rightarrow> token list option" where
  "scan [] = Some []"
| "scan (c # cs) =
     (if is_ws c then scan cs
      else if c = CHR ''{'' then map_option (Cons LBrace) (scan cs)
      else if c = CHR ''}'' then map_option (Cons RBrace) (scan cs)
      else if c = CHR ''['' then map_option (Cons LBracket) (scan cs)
      else if c = CHR '']'' then map_option (Cons RBracket) (scan cs)
      else if c = CHR '','' then map_option (Cons Comma) (scan cs)
      else if c = CHR '':'' then map_option (Cons Colon) (scan cs)
      else if c = CHR 0x22 then
        (case scan_string cs of
           None \<Rightarrow> None
         | Some (s, r) \<Rightarrow>
             map_option (Cons (case s of None \<Rightarrow> OtherStr | Some x \<Rightarrow> StrTok x)) (scan r))
      else if c = CHR ''-'' \<or> is_digit c then
        (case scan_number (c # cs) of
           None \<Rightarrow> None
         | Some (t, r) \<Rightarrow> map_option (Cons t) (scan r))
      else if take 4 (c # cs) = ''true'' then map_option (Cons TrueTok) (scan (drop 3 cs))
      else if take 5 (c # cs) = ''false'' then map_option (Cons FalseTok) (scan (drop 4 cs))
      else if take 4 (c # cs) = ''null'' then map_option (Cons NullTok) (scan (drop 3 cs))
      else None)"
  by pat_completeness auto
termination
proof (relation "measure length", goal_cases)
  case 1
  then show ?case by simp
next
  case (9 c cs x2 s r)
  then show ?case using scan_string_shorter [of cs s r] by simp
next
  case (10 c cs x2 t r)
  then show ?case using scan_number_shorter [of "c # cs" t r] by simp
qed simp_all

declare scan.simps [simp del]


subsection \<open>The numbers of the runtime\<close>

text \<open>
  The text \<open>t\<close> names a number \<open>Float t\<close> when it is one number token of the kind that
  goes to the reader, and the reader reads it as \<open>Float t\<close>: the runtime reads the text
  that \<^verbatim>\<open>String\<close> prints for a finite number back as that number.
\<close>

definition float_token :: "string \<Rightarrow> bool" where
  "float_token t = (scan_number t = Some (OtherNum t, []))"

definition is_float :: "reader \<Rightarrow> string \<Rightarrow> bool" where
  "is_float rd t = (float_token t \<and> rd t = Some (Float t))"

subsection \<open>String(x) of a primitive\<close>

definition digit_char :: "nat \<Rightarrow> char" where
  "digit_char d = char_of (48 + d)"

fun show_nat :: "nat \<Rightarrow> string" where
  "show_nat n = (if n < 10 then [digit_char n] else show_nat (n div 10) @ [digit_char (n mod 10)])"

declare show_nat.simps [simp del]

definition show_int :: "int \<Rightarrow> string" where
  "show_int i = (if i < 0 then CHR ''-'' # show_nat (nat (- i)) else show_nat (nat i))"

text \<open>
  \<^verbatim>\<open>Number::toString\<close>: a safe integer in decimal, a \<open>Float\<close> as the text that names it,
  both zeros as \<^verbatim>\<open>0\<close>. \<open>None\<close>: the term is no number of the runtime.
\<close>

fun Number_toString :: "reader \<Rightarrow> js_number \<Rightarrow> string option" where
  "Number_toString rd (Whole n) = (if safe_integer n then Some (show_int n) else None)"
| "Number_toString rd (Float t) = (if is_float rd t then Some t else None)"
| "Number_toString rd NegZero = Some ''0''"
| "Number_toString rd NaN = Some ''NaN''"
| "Number_toString rd PosInfinity = Some ''Infinity''"
| "Number_toString rd NegInfinity = Some ''-Infinity''"

definition Boolean_toString :: "bool \<Rightarrow> string" where
  "Boolean_toString b = (if b then ''true'' else ''false'')"

subsection \<open>The properties of an object\<close>

text \<open>
  An array index is the decimal text of a whole number below \<open>2^32 - 1\<close> with no leading
  zero. The own properties of an object are listed with the array indices first, in
  ascending order, and the other keys after them, in the order in which they were created
  (\<^verbatim>\<open>OrdinaryOwnPropertyKeys\<close>).
\<close>

definition array_index :: "string \<Rightarrow> bool" where
  "array_index k =
     (k \<noteq> [] \<and> list_all is_digit k \<and> (k = ''0'' \<or> hd k \<noteq> CHR ''0'') \<and> digits_val k < 4294967295)"

text \<open>
  \<^verbatim>\<open>CreateDataProperty\<close> on a list of properties in property order: a key that is there
  keeps its place and takes the new value; a new array index goes before the first
  property that is no array index or is a greater one; any other new key goes last.
\<close>

fun put :: "string \<Rightarrow> js_value \<Rightarrow> (string \<times> js_value) list \<Rightarrow> (string \<times> js_value) list" where
  "put k v [] = [(k, v)]"
| "put k v (m # ms) =
     (if fst m = k then (k, v) # ms
      else if array_index k \<and> (if array_index (fst m) then digits_val k < digits_val (fst m) else True)
        then (k, v) # m # ms
      else m # put k v ms)"

text \<open>The object that has the given members created one after the other.\<close>

definition build :: "(string \<times> js_value) list \<Rightarrow> (string \<times> js_value) list" where
  "build ms = foldl (\<lambda>obj m. put (fst m) (snd m) obj) [] ms"

text \<open>
  A list of properties is the property list of an object when creating its members in
  turn gives the list itself: no key twice, the array indices first and ascending.
\<close>

definition property_list :: "(string \<times> js_value) list \<Rightarrow> bool" where
  "property_list ms = (build ms = ms)"

subsection \<open>JSON.stringify\<close>

text \<open>
  \<^verbatim>\<open>QuoteJSONString\<close>: the quotation mark and the backslash are escaped, a control
  character below 0x20 is written with its short escape or as \<^verbatim>\<open>\u00xx\<close> in lower-case
  hexadecimal, every other code unit stands for itself.
\<close>

definition hex_char :: "nat \<Rightarrow> char" where
  "hex_char d = (if d < 10 then char_of (48 + d) else char_of (87 + d))"

definition quote_char :: "char \<Rightarrow> string" where
  "quote_char c =
     (if c = CHR 0x22 then [CHR 0x5C, CHR 0x22]
      else if c = CHR 0x5C then [CHR 0x5C, CHR 0x5C]
      else if c = CHR 0x08 then [CHR 0x5C, CHR ''b'']
      else if c = CHR 0x09 then [CHR 0x5C, CHR ''t'']
      else if c = CHR 0x0A then [CHR 0x5C, CHR ''n'']
      else if c = CHR 0x0C then [CHR 0x5C, CHR ''f'']
      else if c = CHR 0x0D then [CHR 0x5C, CHR ''r'']
      else if (of_char c :: nat) < 32
        then [CHR 0x5C, CHR ''u'', CHR ''0'', CHR ''0'',
              hex_char (of_char c div 16), hex_char (of_char c mod 16)]
      else [c])"

definition QuoteJSONString :: "string \<Rightarrow> string" where
  "QuoteJSONString s = CHR 0x22 # concat (map quote_char s) @ [CHR 0x22]"

text \<open>The texts of the parts of an array or an object, joined by commas.\<close>

fun join_commas :: "string list \<Rightarrow> string" where
  "join_commas [] = []"
| "join_commas [x] = x"
| "join_commas (x # y # ys) = x @ CHR '','' # join_commas (y # ys)"

text \<open>
  All the parts, when each one has a text. A part that throws makes the whole throw; a
  part outside the model puts the whole outside the model.
\<close>

fun all_texts :: "string outcome list \<Rightarrow> string list outcome" where
  "all_texts [] = Returned []"
| "all_texts (x # xs) =
     (case all_texts xs of
        OutOfModel \<Rightarrow> OutOfModel
      | Thrown e \<Rightarrow> (case x of OutOfModel \<Rightarrow> OutOfModel | Thrown e' \<Rightarrow> Thrown e' | Returned _ \<Rightarrow> Thrown e)
      | Returned ts \<Rightarrow>
          (case x of OutOfModel \<Rightarrow> OutOfModel | Thrown e' \<Rightarrow> Thrown e' | Returned t \<Rightarrow> Returned (t # ts)))"

definition within :: "string \<Rightarrow> string \<Rightarrow> string list outcome \<Rightarrow> string outcome" where
  "within l r parts =
     (case parts of
        Returned ts \<Rightarrow> Returned (l @ join_commas ts @ r)
      | Thrown e \<Rightarrow> Thrown e
      | OutOfModel \<Rightarrow> OutOfModel)"

definition member_text :: "string \<Rightarrow> string outcome \<Rightarrow> string outcome" where
  "member_text k part =
     (case part of
        Returned t \<Rightarrow> Returned (QuoteJSONString k @ CHR '':'' # t)
      | Thrown e \<Rightarrow> Thrown e
      | OutOfModel \<Rightarrow> OutOfModel)"

text \<open>
  \<^verbatim>\<open>SerializeJSONProperty\<close> with no replacer and no indentation. A finite number is
  written as \<^verbatim>\<open>String\<close> prints it, a number that is not finite as \<^verbatim>\<open>null\<close>; a BigInt
  raises a TypeError.
\<close>

fun stringify_value :: "reader \<Rightarrow> js_value \<Rightarrow> string outcome" where
  "stringify_value rd JNull = Returned ''null''"
| "stringify_value rd (JBool b) = Returned (Boolean_toString b)"
| "stringify_value rd (JNum NaN) = Returned ''null''"
| "stringify_value rd (JNum PosInfinity) = Returned ''null''"
| "stringify_value rd (JNum NegInfinity) = Returned ''null''"
| "stringify_value rd (JNum n) =
     (case Number_toString rd n of None \<Rightarrow> OutOfModel | Some t \<Rightarrow> Returned t)"
| "stringify_value rd (JStr s) = Returned (QuoteJSONString s)"
| "stringify_value rd (JArr vs) = within ''['' '']'' (all_texts (map (stringify_value rd) vs))"
| "stringify_value rd (JObj ms) =
     (if property_list ms
      then within ''{'' ''}''
             (all_texts (map (\<lambda>m. member_text (fst m) (stringify_value rd (snd m))) ms))
      else OutOfModel)"
| "stringify_value rd (JBigInt _) = Thrown (Error ''Do not know how to serialize a BigInt'')"

definition JSON_stringify :: "reader \<Rightarrow> js_value \<Rightarrow> string outcome" where
  "JSON_stringify rd v = stringify_value rd v"

subsection \<open>JSON.parse: the values\<close>

text \<open>
  An open array with its elements so far, or an open object with its members so far and the
  key that waits for its value; both lists are kept newest first.
\<close>

datatype frame = ArrF "js_value list" | ObjF "(string \<times> js_value) list" "string option"

text \<open>What the machine expects next, over the stack of open frames (innermost first).\<close>

datatype pstate =
    Val "frame list"
  | ValOrClose "frame list"
  | KeyOrClose "frame list"
  | Key "frame list"
  | AfterKey "frame list"
  | Sep "frame list"
  | Done js_value

text \<open>A complete value goes to the innermost open frame, or ends the text.\<close>

fun deliver :: "js_value \<Rightarrow> frame list \<Rightarrow> pstate option" where
  "deliver v [] = Some (Done v)"
| "deliver v (ArrF es # st) = Some (Sep (ArrF (v # es) # st))"
| "deliver v (ObjF ms (Some k) # st) = Some (Sep (ObjF ((k, v) # ms) None # st))"
| "deliver v (ObjF ms None # st) = None"

text \<open>
  The second component of the machine's state is false once a token outside the model has
  been read: a string with a code unit beyond 255, or a number that the reader leaves open.
\<close>

definition delivered :: "js_value \<Rightarrow> frame list \<Rightarrow> bool \<Rightarrow> (pstate \<times> bool) option" where
  "delivered v st ok = map_option (\<lambda>p. (p, ok)) (deliver v st)"

definition begin_value :: "reader \<Rightarrow> token \<Rightarrow> frame list \<Rightarrow> bool \<Rightarrow> (pstate \<times> bool) option" where
  "begin_value rd t st ok =
     (case t of
        LBracket \<Rightarrow> Some (ValOrClose (ArrF [] # st), ok)
      | LBrace \<Rightarrow> Some (KeyOrClose (ObjF [] None # st), ok)
      | NullTok \<Rightarrow> delivered JNull st ok
      | TrueTok \<Rightarrow> delivered (JBool True) st ok
      | FalseTok \<Rightarrow> delivered (JBool False) st ok
      | NumTok n \<Rightarrow> delivered (JNum (Whole n)) st ok
      | StrTok s \<Rightarrow> delivered (JStr s) st ok
      | MinusZero \<Rightarrow> delivered (JNum NegZero) st ok
      | OtherNum x \<Rightarrow>
          (case rd x of
             Some n \<Rightarrow> delivered (JNum n) st ok
           | None \<Rightarrow> delivered JNull st False)
      | OtherStr \<Rightarrow> delivered JNull st False
      | _ \<Rightarrow> None)"

definition begin_key :: "token \<Rightarrow> frame list \<Rightarrow> bool \<Rightarrow> (pstate \<times> bool) option" where
  "begin_key t st ok =
     (case st of
        ObjF ms None # st' \<Rightarrow>
          (case t of
             StrTok k \<Rightarrow> Some (AfterKey (ObjF ms (Some k) # st'), ok)
           | OtherStr \<Rightarrow> Some (AfterKey (ObjF ms (Some []) # st'), False)
           | _ \<Rightarrow> None)
      | _ \<Rightarrow> None)"

definition close_array :: "frame list \<Rightarrow> bool \<Rightarrow> (pstate \<times> bool) option" where
  "close_array st ok =
     (case st of
        ArrF es # st' \<Rightarrow> delivered (JArr (rev es)) st' ok
      | _ \<Rightarrow> None)"

text \<open>
  The members of an object are created in the order of the text: a key that comes twice
  keeps the later value, and the array indices come first.
\<close>

definition close_object :: "frame list \<Rightarrow> bool \<Rightarrow> (pstate \<times> bool) option" where
  "close_object st ok =
     (case st of
        ObjF ms None # st' \<Rightarrow> delivered (JObj (build (rev ms))) st' ok
      | _ \<Rightarrow> None)"

definition step :: "reader \<Rightarrow> pstate \<times> bool \<Rightarrow> token \<Rightarrow> (pstate \<times> bool) option" where
  "step rd s t =
     (case s of (p, ok) \<Rightarrow>
       (case p of
          Val st \<Rightarrow> begin_value rd t st ok
        | ValOrClose st \<Rightarrow> (case t of RBracket \<Rightarrow> close_array st ok | _ \<Rightarrow> begin_value rd t st ok)
        | KeyOrClose st \<Rightarrow> (case t of RBrace \<Rightarrow> close_object st ok | _ \<Rightarrow> begin_key t st ok)
        | Key st \<Rightarrow> begin_key t st ok
        | AfterKey st \<Rightarrow> (case t of Colon \<Rightarrow> Some (Val st, ok) | _ \<Rightarrow> None)
        | Sep st \<Rightarrow>
            (case t of
               Comma \<Rightarrow>
                 (case st of
                    ArrF es # st' \<Rightarrow> Some (Val st, ok)
                  | ObjF ms None # st' \<Rightarrow> Some (Key st, ok)
                  | _ \<Rightarrow> None)
             | RBracket \<Rightarrow> close_array st ok
             | RBrace \<Rightarrow> close_object st ok
             | _ \<Rightarrow> None)
        | Done v \<Rightarrow> None))"

fun run :: "reader \<Rightarrow> pstate \<times> bool \<Rightarrow> token list \<Rightarrow> (pstate \<times> bool) option" where
  "run rd s [] = Some s"
| "run rd s (t # ts) = (case step rd s t of None \<Rightarrow> None | Some s' \<Rightarrow> run rd s' ts)"

text \<open>
  \<^verbatim>\<open>JSON.parse\<close> with no reviver: the value, or a SyntaxError. \<open>Unrepresented\<close>: the
  text is JSON, and its value is outside the model.
\<close>

datatype parse_result = Parsed js_value | SyntaxError | Unrepresented

definition JSON_parse :: "reader \<Rightarrow> string \<Rightarrow> parse_result" where
  "JSON_parse rd s =
     (case scan s of
        None \<Rightarrow> SyntaxError
      | Some ts \<Rightarrow>
          (case run rd (Val [], True) ts of
             Some (Done v, ok) \<Rightarrow> if ok then Parsed v else Unrepresented
           | _ \<Rightarrow> SyntaxError))"


section \<open>Errors\<close>

text \<open>
  \<^verbatim>\<open>CacheError\<close> (errors/CacheError.ts): the constructor formats the message it is given,
  and keeps the original error, or a new \<^verbatim>\<open>Error\<close> of the message it was given when
  there is none.
\<close>

record cache_error =
  name :: string
  message :: string
  operation :: string
  originalError :: js_error

definition CacheError :: "string \<Rightarrow> string \<Rightarrow> js_error option \<Rightarrow> cache_error" where
  "CacheError op msg orig =
     \<lparr> name = ''CacheError'',
       message = ''Cache '' @ op @ '' operation failed: '' @ msg,
       operation = op,
       originalError = (case orig of Some e \<Rightarrow> e | None \<Rightarrow> Error msg) \<rparr>"

text \<open>
  What a method can throw: an \<^verbatim>\<open>Error\<close> of the client or the runtime, a
  \<^verbatim>\<open>CacheError\<close>, or a value that is no error at all.
\<close>

datatype thrown = ThrownError js_error | ThrownCacheError cache_error | ThrownValue js_value

text \<open>
  How an asynchronous method ends: its promise resolves to a value or rejects with what was
  thrown. \<open>Unmodelled\<close>: the method read a text whose value is outside the model, or
  was given a term that is no value of the runtime.
\<close>

datatype 'a completion = Resolved 'a | Rejected thrown | Unmodelled

section \<open>The client\<close>

text \<open>
  The ioredis client is not part of the repository. It is modelled by the commands the
  facade sends, over a store of entries. The client keeps the list of the commands it was
  sent; \<open>faults\<close> says which of them it rejects, by position in that list, and with which
  error: a connection that is down, a timeout, or a reply error of the store. A rejected
  command leaves the store as it is. The model has no clock: an entry keeps the TTL it was
  written with and stays until it is overwritten or removed.
\<close>

datatype command =
    GET string
  | SET string string
  | SETEX string js_number string
  | DEL string
  | EXISTS string
  | FLUSHALL

record entry =
  stored :: string
  expiry :: "js_number option"

record redis_client =
  entries :: "string \<Rightarrow> entry option"
  issued :: "command list"
  faults :: "nat \<Rightarrow> js_error option"

definition fault :: "redis_client \<Rightarrow> js_error option" where
  "fault r = faults r (length (issued r))"

definition sent :: "command \<Rightarrow> redis_client \<Rightarrow> redis_client" where
  "sent c r = r\<lparr>issued := issued r @ [c]\<rparr>"

definition redis_get :: "string \<Rightarrow> redis_client \<Rightarrow> (js_error + string option) \<times> redis_client" where
  "redis_get key r =
     (case fault r of
        Some e \<Rightarrow> (Inl e, sent (GET key) r)
      | None \<Rightarrow> (Inr (map_option stored (entries r key)), sent (GET key) r))"

definition redis_set :: "string \<Rightarrow> string \<Rightarrow> redis_client \<Rightarrow> (js_error + string) \<times> redis_client" where
  "redis_set key val r =
     (case fault r of
        Some e \<Rightarrow> (Inl e, sent (SET key val) r)
      | None \<Rightarrow>
          (Inr ''OK'',
           sent (SET key val) (r\<lparr>entries := (entries r)(key \<mapsto> \<lparr>stored = val, expiry = None\<rparr>)\<rparr>)))"

definition redis_setex :: "string \<Rightarrow> js_number \<Rightarrow> string \<Rightarrow> redis_client \<Rightarrow> (js_error + string) \<times> redis_client" where
  "redis_setex key ttl val r =
     (case fault r of
        Some e \<Rightarrow> (Inl e, sent (SETEX key ttl val) r)
      | None \<Rightarrow>
          (Inr ''OK'',
           sent (SETEX key ttl val)
             (r\<lparr>entries := (entries r)(key \<mapsto> \<lparr>stored = val, expiry = Some ttl\<rparr>)\<rparr>)))"

definition redis_del :: "string \<Rightarrow> redis_client \<Rightarrow> (js_error + int) \<times> redis_client" where
  "redis_del key r =
     (case fault r of
        Some e \<Rightarrow> (Inl e, sent (DEL key) r)
      | None \<Rightarrow>
          (Inr (if entries r key = None then 0 else 1),
           sent (DEL key) (r\<lparr>entries := (entries r)(key := None)\<rparr>)))"

definition redis_exists :: "string \<Rightarrow> redis_client \<Rightarrow> (js_error + int) \<times> redis_client" where
  "redis_exists key r =
     (case fault r of
        Some e \<Rightarrow> (Inl e, sent (EXISTS key) r)
      | None \<Rightarrow> (Inr (if entries r key = None then 0 else 1), sent (EXISTS key) r))"

definition redis_flushall :: "redis_client \<Rightarrow> (js_error + string) \<times> redis_client" where
  "redis_flushall r =
     (case fault r of
        Some e \<Rightarrow> (Inl e, sent FLUSHALL r)
      | None \<Rightarrow> (Inr ''OK'', sent FLUSHALL (r\<lparr>entries := (\<lambda>_. None)\<rparr>)))"

section \<open>The facade\<close>

text \<open>
  What a method of the facade can see and change: the client it holds
  (\<^verbatim>\<open>this.redis\<close>), the lines written with \<^verbatim>\<open>console.error\<close> (oldest first), and
  the number of times a source callback has been invoked.
\<close>

record world =
  connection :: redis_client
  console :: "string list"
  invoked :: nat

definition console_error :: "string \<Rightarrow> world \<Rightarrow> world" where
  "console_error line w = w\<lparr>console := console w @ [line]\<rparr>"

subsection \<open>serialize, parse, resolve, handleError\<close>

text \<open>
  \<^verbatim>\<open>serialize\<close> (cache.ts, lines 175-185): \<^verbatim>\<open>String(data)\<close> for a string, a number or a
  boolean, \<^verbatim>\<open>JSON.stringify(data)\<close> for everything else, whose error is thrown again
  under a new message. The reader comes in only to tell the numbers of the runtime from
  the other terms.
\<close>

definition serialize :: "reader \<Rightarrow> js_value \<Rightarrow> string outcome" where
  "serialize rd data =
     (case data of
        JStr s \<Rightarrow> Returned s
      | JNum n \<Rightarrow> (case Number_toString rd n of Some t \<Rightarrow> Returned t | None \<Rightarrow> OutOfModel)
      | JBool b \<Rightarrow> Returned (Boolean_toString b)
      | _ \<Rightarrow>
          (case JSON_stringify rd data of
             Returned t \<Rightarrow> Returned t
           | Thrown e \<Rightarrow> Thrown (Error (''Failed to serialize data: '' @ error_message e))
           | OutOfModel \<Rightarrow> OutOfModel))"

text \<open>
  \<^verbatim>\<open>parse\<close> (lines 192-198): \<^verbatim>\<open>JSON.parse(data)\<close>, and the text itself when that throws.
  \<open>None\<close>: the text is JSON for a value outside the model.
\<close>

definition parse :: "reader \<Rightarrow> string \<Rightarrow> js_value option" where
  "parse rd data =
     (case JSON_parse rd data of
        Parsed v \<Rightarrow> Some v
      | SyntaxError \<Rightarrow> Some (JStr data)
      | Unrepresented \<Rightarrow> None)"

text \<open>
  A source (\<^verbatim>\<open>Callback<T>\<close>, line 8) is a value, or a function that returns one, at once
  or through a promise; invoking the function yields a value or throws. The source is taken
  not to use the client itself.
\<close>

datatype callback = Literal js_value | Producer "thrown + js_value"

text \<open>\<^verbatim>\<open>resolve\<close> (lines 205-210): a function is invoked and awaited, a value is returned.\<close>

definition resolve :: "callback \<Rightarrow> world \<Rightarrow> js_value completion \<times> world" where
  "resolve valueOrCallback w =
     (case valueOrCallback of
        Producer outcome \<Rightarrow>
          (case outcome of Inl t \<Rightarrow> Rejected t | Inr v \<Rightarrow> Resolved v,
           w\<lparr>invoked := Suc (invoked w)\<rparr>)
      | Literal v \<Rightarrow> (Resolved v, w))"

text \<open>
  \<^verbatim>\<open>handleError\<close> (lines 219-228): formats and logs the message, then returns the fallback
  when one is given (\<^verbatim>\<open>typeof fallback !== 'undefined'\<close>) and throws a
  \<^verbatim>\<open>CacheError(operation, message)\<close> otherwise.
\<close>

definition handleError :: "string \<Rightarrow> js_error \<Rightarrow> 'a option \<Rightarrow> world \<Rightarrow> 'a completion \<times> world" where
  "handleError op error fallback w =
     (let msg = ''Cache '' @ op @ '' operation failed: '' @ error_message error;
          w' = console_error msg w
      in case fallback of
           Some f \<Rightarrow> (Resolved f, w')
         | None \<Rightarrow> (Rejected (ThrownCacheError (CacheError op msg None)), w'))"

subsection \<open>The operations\<close>

text \<open>
  \<^verbatim>\<open>get\<close> (lines 73-82). \<^verbatim>\<open>data ? this.parse(data) : null\<close>: a reply that is
  \<^verbatim>\<open>null\<close> or the empty string is falsy.
\<close>

definition get :: "reader \<Rightarrow> string \<Rightarrow> world \<Rightarrow> js_value completion \<times> world" where
  "get rd key w =
     (case redis_get key (connection w) of
        (Inr data, r) \<Rightarrow>
          (case data of
             None \<Rightarrow> (Resolved JNull, w\<lparr>connection := r\<rparr>)
           | Some d \<Rightarrow>
               if d = [] then (Resolved JNull, w\<lparr>connection := r\<rparr>)
               else (case parse rd d of
                       Some v \<Rightarrow> (Resolved v, w\<lparr>connection := r\<rparr>)
                     | None \<Rightarrow> (Unmodelled, w\<lparr>connection := r\<rparr>)))
      | (Inl error, r) \<Rightarrow> handleError ''GET'' error (Some JNull) (w\<lparr>connection := r\<rparr>))"

text \<open>
  \<^verbatim>\<open>set\<close> (lines 90-100). \<^verbatim>\<open>ttl ? setex : set\<close>: the TTL is optional, and one that is
  zero or NaN is falsy. The handler throws by itself, so the \<^verbatim>\<open>throw\<close> around it never
  gets a value. For a term that is no value of the runtime the method is left unmodelled,
  and the state is untouched.
\<close>

definition set_entry ::
  "reader \<Rightarrow> string \<Rightarrow> js_value \<Rightarrow> js_number option \<Rightarrow> world \<Rightarrow> string completion \<times> world" where
  "set_entry rd key val ttl w =
     (case serialize rd val of
        OutOfModel \<Rightarrow> (Unmodelled, w)
      | Thrown error \<Rightarrow> handleError ''SET'' error None w
      | Returned serialized \<Rightarrow>
          (case (case ttl of
                   None \<Rightarrow> redis_set key serialized (connection w)
                 | Some t \<Rightarrow>
                     if truthy_number t then redis_setex key t serialized (connection w)
                     else redis_set key serialized (connection w)) of
             (Inr ok, r) \<Rightarrow> (Resolved ok, w\<lparr>connection := r\<rparr>)
           | (Inl error, r) \<Rightarrow> handleError ''SET'' error None (w\<lparr>connection := r\<rparr>)))"

text \<open>
  \<^verbatim>\<open>remember\<close> (lines 109-116): the cached value when \<^verbatim>\<open>get\<close> gives one that is not
  \<^verbatim>\<open>null\<close>; otherwise the source is resolved, written with the TTL, and returned.
\<close>

definition remember ::
  "reader \<Rightarrow> string \<Rightarrow> js_number \<Rightarrow> callback \<Rightarrow> world \<Rightarrow> js_value completion \<times> world" where
  "remember rd key ttl cb w =
     (case get rd key w of
        (Resolved cached, w1) \<Rightarrow>
          if cached \<noteq> JNull then (Resolved cached, w1)
          else
            (case resolve cb w1 of
               (Resolved result, w2) \<Rightarrow>
                 (case set_entry rd key result (Some ttl) w2 of
                    (Resolved _, w3) \<Rightarrow> (Resolved result, w3)
                  | (Rejected t, w3) \<Rightarrow> (Rejected t, w3)
                  | (Unmodelled, w3) \<Rightarrow> (Unmodelled, w3))
             | (Rejected t, w2) \<Rightarrow> (Rejected t, w2)
             | (Unmodelled, w2) \<Rightarrow> (Unmodelled, w2))
      | (Rejected t, w1) \<Rightarrow> (Rejected t, w1)
      | (Unmodelled, w1) \<Rightarrow> (Unmodelled, w1))"

text \<open>\<^verbatim>\<open>forever\<close> (lines 124-131): the same, and the value is written with no TTL.\<close>

definition forever :: "reader \<Rightarrow> string \<Rightarrow> callback \<Rightarrow> world \<Rightarrow> js_value completion \<times> world" where
  "forever rd key cb w =
     (case get rd key w of
        (Resolved cached, w1) \<Rightarrow>
          if cached \<noteq> JNull then (Resolved cached, w1)
          else
            (case resolve cb w1 of
               (Resolved result, w2) \<Rightarrow>
                 (case set_entry rd key result None w2 of
                    (Resolved _, w3) \<Rightarrow> (Resolved result, w3)
                  | (Rejected t, w3) \<Rightarrow> (Rejected t, w3)
                  | (Unmodelled, w3) \<Rightarrow> (Unmodelled, w3))
             | (Rejected t, w2) \<Rightarrow> (Rejected t, w2)
             | (Unmodelled, w2) \<Rightarrow> (Unmodelled, w2))
      | (Rejected t, w1) \<Rightarrow> (Rejected t, w1)
      | (Unmodelled, w1) \<Rightarrow> (Unmodelled, w1))"

text \<open>\<^verbatim>\<open>delete\<close> (lines 138-145).\<close>

definition delete :: "string \<Rightarrow> world \<Rightarrow> int completion \<times> world" where
  "delete key w =
     (case redis_del key (connection w) of
        (Inr n, r) \<Rightarrow> (Resolved n, w\<lparr>connection := r\<rparr>)
      | (Inl error, r) \<Rightarrow> handleError ''DELETE'' error None (w\<lparr>connection := r\<rparr>))"

text \<open>
  \<^verbatim>\<open>flush\<close> (lines 151-158): \<^verbatim>\<open>throw this.handleError('FLUSH', error, 'OK')\<close>. The
  handler is given a fallback, so it returns it, and what it returns is thrown.
\<close>

definition flush :: "world \<Rightarrow> string completion \<times> world" where
  "flush w =
     (case redis_flushall (connection w) of
        (Inr ok, r) \<Rightarrow> (Resolved ok, w\<lparr>connection := r\<rparr>)
      | (Inl error, r) \<Rightarrow>
          (case handleError ''FLUSH'' error (Some ''OK'') (w\<lparr>connection := r\<rparr>) of
             (Resolved fallback, w') \<Rightarrow> (Rejected (ThrownValue (JStr fallback)), w')
           | (Rejected t, w') \<Rightarrow> (Rejected t, w')
           | (Unmodelled, w') \<Rightarrow> (Unmodelled, w')))"

text \<open>\<^verbatim>\<open>exists\<close> (lines 165-168): no handler, the client's error is the method's.\<close>

definition exists :: "string \<Rightarrow> world \<Rightarrow> bool completion \<times> world" where
  "exists key w =
     (case redis_exists key (connection w) of
        (Inr count, r) \<Rightarrow> (Resolved (count > 0), w\<lparr>connection := r\<rparr>)
      | (Inl error, r) \<Rightarrow> (Rejected (ThrownError error), w\<lparr>connection := r\<rparr>))"

subsection \<open>Construction\<close>

text \<open>
  A client object is known by its kind and by the order in which it was constructed; the
  list of the clients constructed so far stands for the connections that exist. In ioredis
  the classes \<^verbatim>\<open>Redis\<close> and \<^verbatim>\<open>Cluster\<close> both extend \<^verbatim>\<open>Commander\<close> and neither extends
  the other, so a cluster client is not an \<^verbatim>\<open>instanceof Redis\<close>.
\<close>

datatype client_ref = RedisClient nat | ClusterClient nat

datatype arg =
    ArgClient client_ref
  | ArgNumber int
  | ArgString string
  | ArgOptions "(string \<times> js_value) list"

type_synonym cluster_node = "string \<times> nat"

definition instanceof_Redis :: "client_ref \<Rightarrow> bool" where
  "instanceof_Redis c = (case c of RedisClient _ \<Rightarrow> True | ClusterClient _ \<Rightarrow> False)"

definition new_Redis :: "arg list \<Rightarrow> client_ref list \<Rightarrow> client_ref \<times> client_ref list" where
  "new_Redis args made = (RedisClient (length made), made @ [RedisClient (length made)])"

definition new_Cluster ::
  "cluster_node list \<Rightarrow> (string \<times> js_value) list option \<Rightarrow> client_ref list \<Rightarrow> client_ref \<times> client_ref list" where
  "new_Cluster nodes options made = (ClusterClient (length made), made @ [ClusterClient (length made)])"

record cache =
  redis :: client_ref

text \<open>The constructor (lines 48-56) and the static factory \<^verbatim>\<open>Cluster\<close> (lines 63-66).\<close>

definition Cache :: "arg list \<Rightarrow> client_ref list \<Rightarrow> cache \<times> client_ref list" where
  "Cache args made =
     (case args of
        ArgClient c # _ \<Rightarrow>
          if instanceof_Redis c then (\<lparr>redis = c\<rparr>, made)
          else (case new_Redis args made of (c', made') \<Rightarrow> (\<lparr>redis = c'\<rparr>, made'))
      | _ \<Rightarrow> (case new_Redis args made of (c', made') \<Rightarrow> (\<lparr>redis = c'\<rparr>, made')))"

definition Cluster ::
  "cluster_node list \<Rightarrow> (string \<times> js_value) list option \<Rightarrow> client_ref list \<Rightarrow> cache \<times> client_ref list" where
  "Cluster nodes options made =
     (case new_Cluster nodes options made of
        (cluster, made') \<Rightarrow> Cache [ArgClient cluster] made')"

definition client :: "cache \<Rightarrow> client_ref" where
  "client c = redis c"

subsection \<open>States of the examples\<close>

text \<open>A client that accepts every command, over the given entries.\<close>

definition serving :: "(string \<Rightarrow> entry option) \<Rightarrow> world" where
  "serving es =
     \<lparr> connection = \<lparr>entries = es, issued = [], faults = (\<lambda>_. None)\<rparr>,
       console = [], invoked = 0 \<rparr>"

text \<open>A client that rejects every command with the same error, over the given entries.\<close>

definition failing :: "js_error \<Rightarrow> (string \<Rightarrow> entry option) \<Rightarrow> world" where
  "failing e es =
     \<lparr> connection = \<lparr>entries = es, issued = [], faults = (\<lambda>_. Some e)\<rparr>,
       console = [], invoked = 0 \<rparr>"

definition holding :: "string \<Rightarrow> string \<Rightarrow> string \<Rightarrow> entry option" where
  "holding key val = (\<lambda>_. None)(key \<mapsto> \<lparr>stored = val, expiry = None\<rparr>)"

text \<open>
  A reader for the examples: the values of a few number tokens, as the runtime reads them
  (\<open>2^53 + 1\<close> is no double and is read as \<open>2^53\<close>); every other token is left open.
\<close>

definition example_reader :: reader where
  "example_reader =
     map_of
       [(''0.5'', Float ''0.5''),
        (''0.1'', Float ''0.1''),
        (''-2.5'', Float ''-2.5''),
        (''1e+21'', Float ''1e+21''),
        (''1e21'', Float ''1e+21''),
        (''9007199254740992'', Float ''9007199254740992''),
        (''9007199254740993'', Float ''9007199254740992''),
        (''1e2'', Whole 100),
        (''1.0'', Whole 1),
        (''-0.0'', NegZero),
        (''1e400'', PosInfinity)]"


section \<open>Values whose text reads back\<close>

text \<open>
  The definitions of this section serve the proof that \<^verbatim>\<open>JSON.parse\<close> reads back what
  \<^verbatim>\<open>JSON.stringify\<close> and \<^verbatim>\<open>String\<close> write.

  A text can follow a number token when it is empty or starts with a character that cannot
  continue the token.
\<close>

definition number_end :: "string \<Rightarrow> bool" where
  "number_end rest =
     (case rest of
        [] \<Rightarrow> True
      | c # _ \<Rightarrow> \<not> is_digit c \<and> c \<noteq> CHR ''.'' \<and> c \<noteq> CHR ''e'' \<and> c \<noteq> CHR ''E'')"

text \<open>The tokens of the text of a value, as \<^verbatim>\<open>JSON.stringify\<close> writes it.\<close>

fun join_tokens :: "token list list \<Rightarrow> token list" where
  "join_tokens [] = []"
| "join_tokens [x] = x"
| "join_tokens (x # y # ys) = x @ Comma # join_tokens (y # ys)"

fun tokens_of :: "js_value \<Rightarrow> token list" where
  "tokens_of JNull = [NullTok]"
| "tokens_of (JBool b) = [if b then TrueTok else FalseTok]"
| "tokens_of (JNum (Whole n)) = [NumTok n]"
| "tokens_of (JNum (Float t)) = [OtherNum t]"
| "tokens_of (JNum NegZero) = [NumTok 0]"
| "tokens_of (JNum _) = [NullTok]"
| "tokens_of (JStr s) = [StrTok s]"
| "tokens_of (JArr vs) = LBracket # join_tokens (map tokens_of vs) @ [RBracket]"
| "tokens_of (JObj ms) =
     LBrace # join_tokens (map (\<lambda>m. StrTok (fst m) # Colon # tokens_of (snd m)) ms) @ [RBrace]"
| "tokens_of (JBigInt _) = []"

text \<open>
  What the JSON text of a value denotes: the value itself, but for the numbers that JSON
  cannot write. A negative zero is written \<^verbatim>\<open>0\<close>; NaN and the infinities are written
  \<^verbatim>\<open>null\<close>.
\<close>

fun json_image :: "js_value \<Rightarrow> js_value" where
  "json_image (JNum NegZero) = JNum (Whole 0)"
| "json_image (JNum NaN) = JNull"
| "json_image (JNum PosInfinity) = JNull"
| "json_image (JNum NegInfinity) = JNull"
| "json_image (JArr vs) = JArr (map json_image vs)"
| "json_image (JObj ms) = JObj (map (\<lambda>m. (fst m, json_image (snd m))) ms)"
| "json_image v = v"

text \<open>The value with every negative zero in it replaced by the zero.\<close>

fun positive_zero :: "js_value \<Rightarrow> js_value" where
  "positive_zero (JNum NegZero) = JNum (Whole 0)"
| "positive_zero (JArr vs) = JArr (map positive_zero vs)"
| "positive_zero (JObj ms) = JObj (map (\<lambda>m. (fst m, positive_zero (snd m))) ms)"
| "positive_zero v = v"

text \<open>
  The values that \<^verbatim>\<open>JSON.stringify\<close> writes: every number in it is a number of the
  runtime, every object has its properties in property order, and there is no BigInt.
\<close>

fun writable :: "reader \<Rightarrow> js_value \<Rightarrow> bool" where
  "writable rd (JNum n) = (Number_toString rd n \<noteq> None)"
| "writable rd (JArr vs) = list_all (writable rd) vs"
| "writable rd (JObj ms) = (property_list ms \<and> list_all (\<lambda>m. writable rd (snd m)) ms)"
| "writable rd (JBigInt _) = False"
| "writable rd _ = True"

text \<open>The values that hold no NaN and no infinity.\<close>

fun finite_numbers :: "js_value \<Rightarrow> bool" where
  "finite_numbers (JNum NaN) = False"
| "finite_numbers (JNum PosInfinity) = False"
| "finite_numbers (JNum NegInfinity) = False"
| "finite_numbers (JArr vs) = list_all finite_numbers vs"
| "finite_numbers (JObj ms) = list_all (\<lambda>m. finite_numbers (snd m)) ms"
| "finite_numbers _ = True"

definition text_of :: "reader \<Rightarrow> js_value \<Rightarrow> string" where
  "text_of rd v = (case stringify_value rd v of Returned t \<Rightarrow> t | _ \<Rightarrow> [])"

text \<open>
  The machine reads the tokens of a value as the value they denote, wherever a value may
  stand.
\<close>

definition reads_value :: "reader \<Rightarrow> js_value \<Rightarrow> bool" where
  "reads_value rd v =
     (\<forall>st ok ts.
        run rd (Val st, ok) (tokens_of v @ ts) =
          (case delivered (json_image v) st ok of None \<Rightarrow> None | Some s \<Rightarrow> run rd s ts) \<and>
        run rd (ValOrClose st, ok) (tokens_of v @ ts) =
          (case delivered (json_image v) st ok of None \<Rightarrow> None | Some s \<Rightarrow> run rd s ts))"

text \<open>The open arrays and objects of a state of the machine, and the values that close one.\<close>

fun frames :: "pstate \<Rightarrow> frame list" where
  "frames (Val st) = st"
| "frames (ValOrClose st) = st"
| "frames (KeyOrClose st) = st"
| "frames (Key st) = st"
| "frames (AfterKey st) = st"
| "frames (Sep st) = st"
| "frames (Done v) = []"

definition structured :: "js_value \<Rightarrow> bool" where
  "structured v = (case v of JArr _ \<Rightarrow> True | JObj _ \<Rightarrow> True | _ \<Rightarrow> False)"

text \<open>
  The values that \<open>get\<close> returns as they were given to \<open>set\<close>, but for the sign of a
  zero: a boolean, a finite number, \<^verbatim>\<open>null\<close>, an array or an object built from such
  values and from strings, and a string that is not empty and is not JSON text itself.
\<close>

definition reads_back :: "reader \<Rightarrow> js_value \<Rightarrow> bool" where
  "reads_back rd v =
     (case v of
        JStr s \<Rightarrow> s \<noteq> [] \<and> JSON_parse rd s = SyntaxError
      | _ \<Rightarrow> writable rd v \<and> finite_numbers v)"

section \<open>Properties\<close>

subsection \<open>Facts about the operations\<close>

lemma get_rejected:
  "fault (connection w) = Some e \<Longrightarrow>
   get rd key w =
     (Resolved JNull,
      w\<lparr>connection := sent (GET key) (connection w),
        console := console w @ [''Cache GET operation failed: '' @ error_message e]\<rparr>)"
  by (simp add: get_def redis_get_def handleError_def console_error_def)

lemma get_accepted:
  "fault (connection w) = None \<Longrightarrow>
   get rd key w =
     (case entries (connection w) key of
        None \<Rightarrow> Resolved JNull
      | Some e \<Rightarrow>
          if stored e = [] then Resolved JNull
          else (case parse rd (stored e) of Some v \<Rightarrow> Resolved v | None \<Rightarrow> Unmodelled),
      w\<lparr>connection := sent (GET key) (connection w)\<rparr>)"
  by (simp add: get_def redis_get_def split: option.splits)

lemma get_never_rejects: "fst (get rd key w) \<noteq> Rejected t"
  by (cases "fault (connection w)")
     (auto simp: get_accepted get_rejected split: option.splits)

lemma get_invoked: "invoked (snd (get rd key w)) = invoked w"
  by (cases "fault (connection w)")
     (auto simp: get_accepted get_rejected split: option.splits)

lemma exists_accepted:
  "fault (connection w) = None \<Longrightarrow>
   exists key w =
     (Resolved (entries (connection w) key \<noteq> None),
      w\<lparr>connection := sent (EXISTS key) (connection w)\<rparr>)"
  by (simp add: exists_def redis_exists_def)

lemma exists_rejected:
  "fault (connection w) = Some e \<Longrightarrow>
   exists key w =
     (Rejected (ThrownError e), w\<lparr>connection := sent (EXISTS key) (connection w)\<rparr>)"
  by (simp add: exists_def redis_exists_def)

lemma fault_serving [simp]: "fault (connection (serving es)) = None"
  by (simp add: fault_def serving_def)

lemma fault_failing [simp]: "fault (connection (failing e es)) = Some e"
  by (simp add: fault_def failing_def)

subsection \<open>Facts about texts and states\<close>

lemma show_int_5: "show_int 5 = ''5''"
  by code_simp

lemma entries_serving [simp]: "entries (connection (serving es)) = es"
  by (simp add: serving_def)

lemma holding_same [simp]: "holding key val key = Some \<lparr>stored = val, expiry = None\<rparr>"
  by (simp add: holding_def)

lemma fault_sent: "fault (sent c r) = faults r (Suc (length (issued r)))"
  by (simp add: fault_def sent_def)

lemma set_entry_accepted:
  assumes "serialize rd val = Returned t" and "fault (connection w) = None"
  shows "set_entry rd key val ttl w =
     (Resolved ''OK'',
      w\<lparr>connection := (connection w)
          \<lparr>entries := (entries (connection w))
             (key \<mapsto> \<lparr>stored = t,
                        expiry = (case ttl of None \<Rightarrow> None
                                  | Some n \<Rightarrow> if truthy_number n then Some n else None)\<rparr>),
           issued := issued (connection w) @
             [case ttl of None \<Rightarrow> SET key t
              | Some n \<Rightarrow> if truthy_number n then SETEX key n t else SET key t]\<rparr>\<rparr>)"
  using assms
  by (simp add: set_entry_def redis_set_def redis_setex_def sent_def split: option.splits)

lemma quote_char_length: "1 \<le> length (quote_char c)"
  by (simp add: quote_char_def)

lemma quoted_longer: "length s < length (QuoteJSONString s)"
proof -
  have "length s \<le> length (concat (map quote_char s))"
  proof (induction s)
    case Nil
    then show ?case by simp
  next
    case (Cons c s)
    then show ?case using quote_char_length [of c] by simp
  qed
  then show ?thesis by (simp add: QuoteJSONString_def)
qed


lemma get_issued: "issued (connection (snd (get rd key w))) = issued (connection w) @ [GET key]"
  by (cases "fault (connection w)")
     (auto simp: get_accepted get_rejected sent_def split: option.splits)

lemma get_faults: "faults (connection (snd (get rd key w))) = faults (connection w)"
  by (cases "fault (connection w)")
     (auto simp: get_accepted get_rejected sent_def split: option.splits)

lemma get_absent: "entries (connection w) key = None \<Longrightarrow> fst (get rd key w) = Resolved JNull"
  by (cases "fault (connection w)") (simp_all add: get_accepted get_rejected)

lemma set_entry_issued:
  assumes "serialize rd val = Returned t"
  shows "issued (connection (snd (set_entry rd key val ttl w))) =
     issued (connection w) @
       [case ttl of
          None \<Rightarrow> SET key t
        | Some n \<Rightarrow> if truthy_number n then SETEX key n t else SET key t]"
proof (cases "fault (connection w)")
  case None
  with assms show ?thesis
    by (simp add: set_entry_def redis_set_def redis_setex_def sent_def split: option.splits)
next
  case (Some e)
  with assms show ?thesis
    by (simp add: set_entry_def redis_set_def redis_setex_def sent_def handleError_def
        console_error_def Let_def split: option.splits)
qed

lemma set_entry_invoked: "invoked (snd (set_entry rd key val ttl w)) = invoked w"
  by (cases "fault (connection w)")
     (auto simp: set_entry_def redis_set_def redis_setex_def handleError_def console_error_def
        Let_def split: option.splits outcome.splits)

subsection \<open>JSON.parse reads back what JSON.stringify writes\<close>

lemma hex_val_hex_char: "d < 16 \<Longrightarrow> hex_val (hex_char d) = Some d"
  by (auto simp: hex_val_def hex_char_def Let_def)

lemma code_unit_control:
  "n < 256 \<Longrightarrow> code_unit (CHR ''0'') (CHR ''0'') (hex_char (n div 16)) (hex_char (n mod 16)) = Some n"
proof -
  assume n: "n < 256"
  have z: "hex_val (CHR ''0'') = Some 0"
    by (simp add: hex_val_def)
  have "n div 16 < 16" using n by simp
  then show ?thesis
    by (simp add: code_unit_def z hex_val_hex_char)
qed

lemma scan_string_quote_char:
  "scan_string (quote_char c @ rest) = prepend (Some c) (scan_string rest)"
proof -
  have small: "of_char c < (256::nat)" by simp
  consider (quote) "c = CHR 0x22" | (backslash) "c = CHR 0x5C"
    | (b) "c = CHR 0x08" | (t) "c = CHR 0x09" | (n) "c = CHR 0x0A" | (f) "c = CHR 0x0C"
    | (r) "c = CHR 0x0D"
    | (control) "c \<noteq> CHR 0x22" "c \<noteq> CHR 0x5C" "c \<noteq> CHR 0x08" "c \<noteq> CHR 0x09" "c \<noteq> CHR 0x0A"
        "c \<noteq> CHR 0x0C" "c \<noteq> CHR 0x0D" "(of_char c :: nat) < 32"
    | (plain) "c \<noteq> CHR 0x22" "c \<noteq> CHR 0x5C" "\<not> (of_char c :: nat) < 32"
    by blast
  then show ?thesis
  proof cases
    case control
    then show ?thesis
      using code_unit_control [OF small]
      by (simp add: quote_char_def)
  next
    case plain
    then have "quote_char c = [c]"
      by (auto simp: quote_char_def)
    with plain show ?thesis by simp
  qed (simp_all add: quote_char_def unescape_def)
qed

lemma scan_string_quoted:
  "scan_string (concat (map quote_char s) @ CHR 0x22 # rest) = Some (Some s, rest)"
  by (induction s) (simp_all add: scan_string_quote_char prepend_def)

lemma char_of_48: "char_of (48::nat) = CHR ''0''"
  by code_simp

lemma is_digit_digit_char: "d < 10 \<Longrightarrow> is_digit (digit_char d)"
  by (simp add: is_digit_def digit_char_def)

lemma digit_val_digit_char: "d < 10 \<Longrightarrow> digit_val (digit_char d) = int d"
  by (simp add: digit_val_def digit_char_def)

lemma digit_char_zero: "d < 10 \<Longrightarrow> digit_char d = CHR ''0'' \<longleftrightarrow> d = 0"
proof
  assume d: "d < 10" and "digit_char d = CHR ''0''"
  then have "(of_char (digit_char d) :: nat) = of_char (CHR ''0'')" by simp
  with d show "d = 0" by (simp add: digit_char_def)
qed (simp add: digit_char_def char_of_48)

lemma show_nat_digits: "list_all is_digit (show_nat n)"
proof (induction n rule: show_nat.induct)
  case (1 n)
  then show ?case
    by (subst show_nat.simps) (auto simp: is_digit_digit_char)
qed

lemma show_nat_nonempty: "show_nat n \<noteq> []"
  by (subst show_nat.simps) simp

lemma digits_val_snoc: "digits_val (ds @ [c]) = 10 * digits_val ds + digit_val c"
  by (simp add: digits_val_def)

lemma digits_val_show_nat: "digits_val (show_nat n) = int n"
proof (induction n rule: show_nat.induct)
  case (1 n)
  show ?case
  proof (cases "n < 10")
    case True
    then show ?thesis
      by (subst show_nat.simps) (simp add: digits_val_def digit_val_digit_char)
  next
    case False
    then have "digits_val (show_nat n) = 10 * int (n div 10) + int (n mod 10)"
      using "1.IH" by (subst show_nat.simps) (simp add: digits_val_snoc digit_val_digit_char)
    then show ?thesis by (simp add: zdiv_int zmod_int)
  qed
qed

lemma hd_show_nat: "hd (show_nat n) = CHR ''0'' \<longleftrightarrow> n = 0"
proof (induction n rule: show_nat.induct)
  case (1 n)
  show ?case
  proof (cases "n < 10")
    case True
    then show ?thesis
      by (subst show_nat.simps) (simp add: digit_char_zero)
  next
    case False
    then have "hd (show_nat n) = hd (show_nat (n div 10))"
      by (subst show_nat.simps) (simp add: show_nat_nonempty)
    with False "1.IH" show ?thesis by simp
  qed
qed

lemma hd_show_nat_digit: "is_digit (hd (show_nat n))"
  using show_nat_digits [of n] show_nat_nonempty [of n]
  by (cases "show_nat n") simp_all

lemma takeWhile_digits:
  "list_all is_digit ds \<Longrightarrow> number_end rest \<Longrightarrow> takeWhile is_digit (ds @ rest) = ds"
  by (cases rest) (simp_all add: number_end_def list_all_iff)

lemma scan_fraction_end: "number_end rest \<Longrightarrow> scan_fraction rest = Some (False, rest)"
  by (cases rest) (simp_all add: number_end_def scan_fraction_def)

lemma scan_exponent_end: "number_end rest \<Longrightarrow> scan_exponent rest = Some (False, rest)"
  by (cases rest) (simp_all add: number_end_def scan_exponent_def)

lemma show_nat_zero: "show_nat 0 = ''0''"
  by (subst show_nat.simps) (simp add: digit_char_def char_of_48)


lemma scan_number_digits:
  assumes "number_end rest" and "n \<noteq> 0" and "int n \<le> 9007199254740991"
  shows "scan_number (show_nat n @ rest) = Some (NumTok (int n), rest)"
    and "scan_number (CHR ''-'' # show_nat n @ rest) = Some (NumTok (- int n), rest)"
proof -
  let ?ds = "show_nat n"
  have not_minus: "hd ?ds \<noteq> CHR ''-''"
    using hd_show_nat_digit [of n] by (auto simp: is_digit_def)
  have not_zero: "hd ?ds \<noteq> CHR ''0''"
    using hd_show_nat [of n] assms(2) by simp
  have tw: "takeWhile is_digit (?ds @ rest) = ?ds"
    by (rule takeWhile_digits [OF show_nat_digits assms(1)])
  show "scan_number (?ds @ rest) = Some (NumTok (int n), rest)"
    using assms not_minus not_zero
    by (simp add: scan_number_def Let_def tw show_nat_nonempty scan_fraction_end
        scan_exponent_end digits_val_show_nat)
  show "scan_number (CHR ''-'' # ?ds @ rest) = Some (NumTok (- int n), rest)"
    using assms not_zero
    by (simp add: scan_number_def Let_def tw show_nat_nonempty scan_fraction_end
        scan_exponent_end digits_val_show_nat)
qed

lemma scan_number_zero:
  assumes "number_end rest"
  shows "scan_number (CHR ''0'' # rest) = Some (NumTok 0, rest)"
  using assms
  by (simp add: scan_number_def Let_def scan_fraction_end scan_exponent_end digits_val_def
      digit_val_def)

lemma scan_number_show_int:
  assumes "number_end rest" and "safe_integer i"
  shows "scan_number (show_int i @ rest) = Some (NumTok i, rest)"
proof -
  consider (zero) "i = 0" | (pos) "0 < i" | (neg) "i < 0"
    by linarith
  then show ?thesis
  proof cases
    case zero
    then show ?thesis
      using scan_number_zero [OF assms(1)] by (simp add: show_int_def show_nat_zero)
  next
    case pos
    then show ?thesis
      using scan_number_digits(1) [OF assms(1), of "nat i"] assms(2)
      by (simp add: show_int_def safe_integer_def)
  next
    case neg
    then show ?thesis
      using scan_number_digits(2) [OF assms(1), of "nat (- i)"] assms(2)
      by (simp add: show_int_def safe_integer_def)
  qed
qed

lemma takeWhile_number_end:
  "number_end rest \<Longrightarrow> takeWhile is_digit (xs @ rest) = takeWhile is_digit xs"
  by (induction xs) (auto simp: number_end_def split: list.splits)

lemma dropWhile_number_end:
  "number_end rest \<Longrightarrow> dropWhile is_digit (xs @ rest) = dropWhile is_digit xs @ rest"
  by (induction xs) (auto simp: number_end_def split: list.splits)

lemma scan_fraction_append:
  assumes "scan_fraction s = Some (b, r)" and "number_end rest"
  shows "scan_fraction (s @ rest) = Some (b, r @ rest)"
proof (cases s)
  case Nil
  with assms show ?thesis
    using scan_fraction_end [OF assms(2)] by (simp add: scan_fraction_def)
next
  case (Cons c cs)
  with assms show ?thesis
    by (auto simp: scan_fraction_def takeWhile_number_end dropWhile_number_end split: if_splits)
qed

lemma scan_exponent_append:
  assumes "scan_exponent s = Some (b, r)" and "number_end rest"
  shows "scan_exponent (s @ rest) = Some (b, r @ rest)"
proof (cases s)
  case Nil
  with assms show ?thesis
    using scan_exponent_end [OF assms(2)] by (simp add: scan_exponent_def)
next
  case (Cons c cs)
  show ?thesis
  proof (cases "c = CHR ''e'' \<or> c = CHR ''E''")
    case False
    with assms Cons have "r = c # cs" and "\<not> b"
      by (auto simp: scan_exponent_def)
    with False Cons show ?thesis
      by (simp add: scan_exponent_def)
  next
    case True
    show ?thesis
    proof (cases cs)
      case Nil
      with assms Cons True show ?thesis
        by (simp add: scan_exponent_def)
    next
      case (Cons x xs)
      with assms \<open>s = c # cs\<close> True show ?thesis
        by (auto simp: scan_exponent_def Let_def takeWhile_number_end dropWhile_number_end
            split: if_splits)
    qed
  qed
qed

text \<open>A number token is scanned alike when a text that cannot continue it follows.\<close>

lemma scan_number_append:
  assumes "scan_number t = Some (tok, r)" and "number_end rest"
  shows "scan_number (t @ rest) = Some (tok, r @ rest)"
proof -
  define neg where "neg = (t \<noteq> [] \<and> hd t = CHR ''-'')"
  define s1 where "s1 = (if neg then tl t else t)"
  define ds where "ds = (if s1 \<noteq> [] \<and> hd s1 = CHR ''0'' then ''0'' else takeWhile is_digit s1)"
  from assms(1) have ds: "ds \<noteq> []"
    by (auto simp: scan_number_def Let_def neg_def s1_def ds_def split: if_splits)
  from assms(1) obtain frac s2 ex where
    f: "scan_fraction (drop (length ds) s1) = Some (frac, s2)" and
    e: "scan_exponent s2 = Some (ex, r)" and
    tok: "tok = (if frac \<or> ex \<or> 9007199254740991 < digits_val ds
                   then OtherNum (take (length t - length r) t)
                 else if neg \<and> digits_val ds = 0 then MinusZero
                 else NumTok (if neg then - digits_val ds else digits_val ds))"
    by (auto simp: scan_number_def Let_def neg_def s1_def ds_def
        split: if_splits option.splits prod.splits)
  have s1ne: "s1 \<noteq> []"
    using ds by (auto simp: ds_def split: if_splits)
  then have tne: "t \<noteq> []"
    by (auto simp: s1_def split: if_splits)
  have neg': "(t @ rest \<noteq> [] \<and> hd (t @ rest) = CHR ''-'') = neg"
    using tne by (simp add: neg_def)
  have s1': "(if neg then tl (t @ rest) else t @ rest) = s1 @ rest"
    using tne by (simp add: s1_def)
  have ds': "(if s1 @ rest \<noteq> [] \<and> hd (s1 @ rest) = CHR ''0'' then ''0''
              else takeWhile is_digit (s1 @ rest)) = ds"
    using s1ne by (simp add: ds_def takeWhile_number_end [OF assms(2)])
  have len: "length ds \<le> length s1"
    using s1ne by (cases s1) (auto simp: ds_def length_takeWhile_le)
  have d': "drop (length ds) (s1 @ rest) = drop (length ds) s1 @ rest"
    using len by simp
  have f': "scan_fraction (drop (length ds) s1 @ rest) = Some (frac, s2 @ rest)"
    by (rule scan_fraction_append [OF f assms(2)])
  have e': "scan_exponent (s2 @ rest) = Some (ex, r @ rest)"
    by (rule scan_exponent_append [OF e assms(2)])
  have tk: "take (length (t @ rest) - length (r @ rest)) (t @ rest) = take (length t - length r) t"
    by simp
  show ?thesis
    unfolding scan_number_def Let_def neg' s1' ds' d' f'
    using ds by (simp add: tok e')
qed

lemma scan_number_head:
  assumes "scan_number t = Some x"
  obtains c cs where "t = c # cs" and "c = CHR ''-'' \<or> is_digit c"
proof (cases t)
  case Nil
  with assms show ?thesis
    by (simp add: scan_number_def)
next
  case (Cons c cs)
  show ?thesis
  proof (cases "c = CHR ''-''")
    case True
    with Cons show ?thesis using that by blast
  next
    case False
    have "takeWhile is_digit t \<noteq> [] \<or> c = CHR ''0''"
      using assms Cons False by (auto simp: scan_number_def Let_def split: if_splits)
    then have "is_digit c"
      using Cons by (auto simp: is_digit_def split: if_splits)
    with Cons show ?thesis using that by blast
  qed
qed

lemma join_commas_Cons:
  "join_commas (x # xs) = (if xs = [] then x else x @ CHR '','' # join_commas xs)"
  by (cases xs) simp_all

lemma join_tokens_Cons:
  "join_tokens (x # xs) = (if xs = [] then x else x @ Comma # join_tokens xs)"
  by (cases xs) simp_all

lemma all_texts_map:
  "(\<And>x. x \<in> set xs \<Longrightarrow> f x = Returned (g x)) \<Longrightarrow> all_texts (map f xs) = Returned (map g xs)"
  by (induction xs) simp_all

lemma scan_comma: "scan (CHR '','' # cs) = map_option (Cons Comma) (scan cs)"
  by (simp add: scan.simps is_ws_def)

lemma scan_colon: "scan (CHR '':'' # cs) = map_option (Cons Colon) (scan cs)"
  by (simp add: scan.simps is_ws_def)

lemma scan_brackets:
  "scan (CHR ''['' # cs) = map_option (Cons LBracket) (scan cs)"
  "scan (CHR '']'' # cs) = map_option (Cons RBracket) (scan cs)"
  "scan (CHR ''{'' # cs) = map_option (Cons LBrace) (scan cs)"
  "scan (CHR ''}'' # cs) = map_option (Cons RBrace) (scan cs)"
  by (simp_all add: scan.simps is_ws_def)

lemma scan_literals:
  "scan (''null'' @ cs) = map_option (Cons NullTok) (scan cs)"
  "scan (''true'' @ cs) = map_option (Cons TrueTok) (scan cs)"
  "scan (''false'' @ cs) = map_option (Cons FalseTok) (scan cs)"
  by (simp_all add: scan.simps is_ws_def is_digit_def)

lemma scan_quoted:
  "scan (QuoteJSONString s @ cs) = map_option (Cons (StrTok s)) (scan cs)"
  by (simp add: QuoteJSONString_def scan.simps is_ws_def scan_string_quoted)

lemma show_int_head:
  obtains c cs where "show_int i = c # cs" and "c = CHR ''-'' \<or> is_digit c"
proof (cases "i < 0")
  case True
  then show ?thesis using that by (simp add: show_int_def)
next
  case False
  obtain c cs where s: "show_nat (nat i) = c # cs"
    using show_nat_nonempty [of "nat i"] by (cases "show_nat (nat i)") auto
  then have "is_digit c"
    using hd_show_nat_digit [of "nat i"] by simp
  with False s show ?thesis using that by (simp add: show_int_def)
qed

lemma scan_number_start:
  assumes "c = CHR ''-'' \<or> is_digit c"
  shows "scan (c # cs) =
     (case scan_number (c # cs) of
        None \<Rightarrow> None
      | Some (t, r) \<Rightarrow> map_option (Cons t) (scan r))"
proof -
  from assms have "\<not> is_ws c" "c \<noteq> CHR ''{''" "c \<noteq> CHR ''}''" "c \<noteq> CHR ''[''" "c \<noteq> CHR '']''"
    "c \<noteq> CHR '',''" "c \<noteq> CHR '':''" "c \<noteq> CHR 0x22"
    by (auto simp: is_ws_def is_digit_def)
  with assms show ?thesis
    by (simp add: scan.simps)
qed

lemma scan_show_int:
  assumes "number_end rest" and "safe_integer i"
  shows "scan (show_int i @ rest) = map_option (Cons (NumTok i)) (scan rest)"
proof -
  obtain c cs where s: "show_int i = c # cs" and c: "c = CHR ''-'' \<or> is_digit c"
    by (rule show_int_head)
  have "scan_number (c # cs @ rest) = Some (NumTok i, rest)"
    using scan_number_show_int [OF assms] s by simp
  then show ?thesis
    using scan_number_start [OF c, of "cs @ rest"] s by simp
qed


lemma scan_float:
  assumes "float_token t" and "number_end rest"
  shows "scan (t @ rest) = map_option (Cons (OtherNum t)) (scan rest)"
proof -
  have t: "scan_number t = Some (OtherNum t, [])"
    using assms(1) by (simp add: float_token_def)
  obtain c cs where s: "t = c # cs" and c: "c = CHR ''-'' \<or> is_digit c"
    using t by (rule scan_number_head)
  have "scan_number (c # cs @ rest) = Some (OtherNum t, rest)"
    using scan_number_append [OF t assms(2)] s by simp
  then show ?thesis
    using scan_number_start [OF c, of "cs @ rest"] s by simp
qed

lemma number_end_closers [simp]:
  "number_end []" "number_end (CHR '','' # cs)" "number_end (CHR '']'' # cs)"
  "number_end (CHR ''}'' # cs)"
  by (simp_all add: number_end_def is_digit_def)

lemma scan_join:
  assumes "\<And>x rest. x \<in> set xs \<Longrightarrow> number_end rest \<Longrightarrow>
             scan (txt x @ rest) = map_option ((@) (tok x)) (scan rest)"
    and "number_end rest"
  shows "scan (join_commas (map txt xs) @ rest) =
           map_option ((@) (join_tokens (map tok xs))) (scan rest)"
  using assms
proof (induction xs)
  case Nil
  then show ?case by (simp add: option.map_ident)
next
  case (Cons x xs)
  show ?case
  proof (cases "xs = []")
    case True
    then show ?thesis using Cons.prems by simp
  next
    case False
    have tail: "scan (join_commas (map txt xs) @ rest) =
        map_option ((@) (join_tokens (map tok xs))) (scan rest)"
      using Cons.IH Cons.prems by simp
    have "scan (txt x @ CHR '','' # join_commas (map txt xs) @ rest) =
        map_option ((@) (tok x)) (scan (CHR '','' # join_commas (map txt xs) @ rest))"
      using Cons.prems(1) [of x "CHR '','' # join_commas (map txt xs) @ rest"] by simp
    with False tail show ?thesis
      by (simp add: join_commas_Cons join_tokens_Cons scan_comma option.map_comp comp_def)
  qed
qed


lemma show_int_zero: "show_int 0 = ''0''"
  by (simp add: show_int_def show_nat_zero)

lemma scan_number_text:
  assumes "Number_toString rd n = Some t" and "finite_numbers (JNum n)" and "number_end rest"
  shows "scan (t @ rest) = map_option ((@) (tokens_of (JNum n))) (scan rest)"
proof (cases n)
  case (Whole i)
  with assms show ?thesis
    using scan_show_int [of rest i]
    by (cases "scan rest") (auto split: if_splits)
next
  case (Float x)
  with assms show ?thesis
    using scan_float [of x rest]
    by (cases "scan rest") (auto simp: is_float_def split: if_splits)
next
  case NegZero
  with assms show ?thesis
    using scan_show_int [of rest 0]
    by (cases "scan rest") (auto simp: show_int_zero safe_integer_def)
qed (use assms in simp_all)

lemma scan_text_of:
  "writable rd v \<Longrightarrow>
   stringify_value rd v = Returned (text_of rd v) \<and>
   (\<forall>rest. number_end rest \<longrightarrow>
      scan (text_of rd v @ rest) = map_option ((@) (tokens_of v)) (scan rest))"
proof (induction v)
  case JNull
  show ?case by (simp add: text_of_def scan_literals(1) [simplified])
next
  case (JBool b)
  show ?case
    by (cases b) (simp_all add: text_of_def Boolean_toString_def scan_literals [simplified])
next
  case (JNum n)
  then obtain t where t: "Number_toString rd n = Some t"
    by auto
  show ?case
  proof (cases "finite_numbers (JNum n)")
    case True
    then have sv: "stringify_value rd (JNum n) = Returned t"
      using t by (cases n) simp_all
    have "scan (t @ rest) = map_option ((@) (tokens_of (JNum n))) (scan rest)"
      if "number_end rest" for rest
      by (rule scan_number_text [OF t True that])
    then show ?thesis
      by (simp add: text_of_def sv)
  next
    case False
    then show ?thesis
      by (cases n) (simp_all add: text_of_def scan_literals(1) [simplified])
  qed
next
  case (JStr s)
  show ?case by (simp add: text_of_def scan_quoted)
next
  case (JArr vs)
  then have el: "\<And>x. x \<in> set vs \<Longrightarrow> stringify_value rd x = Returned (text_of rd x)"
    and lx: "\<And>x rest. x \<in> set vs \<Longrightarrow> number_end rest \<Longrightarrow>
               scan (text_of rd x @ rest) = map_option ((@) (tokens_of x)) (scan rest)"
    by (auto simp: list_all_iff)
  have sv: "stringify_value rd (JArr vs) =
      Returned (CHR ''['' # join_commas (map (text_of rd) vs) @ '']'')"
    using all_texts_map [of vs "stringify_value rd" "text_of rd", OF el]
    by (simp add: within_def)
  have tx: "text_of rd (JArr vs) = CHR ''['' # join_commas (map (text_of rd) vs) @ '']''"
    unfolding text_of_def sv by simp
  have "scan (text_of rd (JArr vs) @ rest) = map_option ((@) (tokens_of (JArr vs))) (scan rest)"
    for rest
    using scan_join [of vs "text_of rd" tokens_of "CHR '']'' # rest", OF lx]
    by (cases "scan rest") (simp_all add: tx scan_brackets option.map_comp comp_def)
  with sv tx show ?case by metis
next
  case (JObj ms)
  then have pl: "property_list ms"
    and el: "\<And>m. m \<in> set ms \<Longrightarrow> stringify_value rd (snd m) = Returned (text_of rd (snd m))"
    and lx: "\<And>m rest. m \<in> set ms \<Longrightarrow> number_end rest \<Longrightarrow>
               scan (text_of rd (snd m) @ rest) = map_option ((@) (tokens_of (snd m))) (scan rest)"
    by (auto simp: list_all_iff snds.simps)
  let ?f = "\<lambda>m. member_text (fst m) (stringify_value rd (snd m))"
  let ?txt = "\<lambda>m. QuoteJSONString (fst m) @ CHR '':'' # text_of rd (snd m)"
  let ?tok = "\<lambda>m. StrTok (fst m) # Colon # tokens_of (snd m)"
  have "all_texts (map ?f ms) = Returned (map ?txt ms)"
    by (rule all_texts_map) (simp add: el member_text_def)
  then have sv: "stringify_value rd (JObj ms) =
      Returned (CHR ''{'' # join_commas (map ?txt ms) @ ''}'')"
    using pl by (simp add: within_def)
  have member: "scan (?txt m @ rest) = map_option ((@) (?tok m)) (scan rest)"
    if "m \<in> set ms" "number_end rest" for m rest
    using lx [OF that]
    by (cases "scan rest") (simp_all add: scan_quoted scan_colon option.map_comp comp_def)
  have tx: "text_of rd (JObj ms) = CHR ''{'' # join_commas (map ?txt ms) @ ''}''"
    unfolding text_of_def sv by simp
  have "scan (text_of rd (JObj ms) @ rest) = map_option ((@) (tokens_of (JObj ms))) (scan rest)"
    for rest
    using scan_join [of ms ?txt ?tok "CHR ''}'' # rest", OF member]
    by (cases "scan rest") (simp_all add: tx scan_brackets option.map_comp comp_def)
  with sv tx show ?case by metis
next
  case (JBigInt x)
  then show ?case by simp
qed

lemma join_tokens_concat:
  "join_tokens (x # xs) = x @ concat (map (\<lambda>y. Comma # y) xs)"
  by (induction xs arbitrary: x) (simp_all add: join_tokens_Cons)

lemma run_append:
  "run rd s (ts @ us) = (case run rd s ts of None \<Rightarrow> None | Some s' \<Rightarrow> run rd s' us)"
  by (induction ts arbitrary: s) (simp_all split: option.splits)

lemma reads_valueD:
  assumes "reads_value rd v"
  shows "run rd (Val st, ok) (tokens_of v @ ts) =
          (case delivered (json_image v) st ok of None \<Rightarrow> None | Some s \<Rightarrow> run rd s ts)"
    and "run rd (ValOrClose st, ok) (tokens_of v @ ts) =
          (case delivered (json_image v) st ok of None \<Rightarrow> None | Some s \<Rightarrow> run rd s ts)"
  using assms by (simp_all add: reads_value_def)

lemma run_elements:
  assumes "\<And>v. v \<in> set vs \<Longrightarrow> reads_value rd v"
  shows "run rd (Sep (ArrF es # st), ok) (concat (map (\<lambda>v. Comma # tokens_of v) vs) @ ts) =
         run rd (Sep (ArrF (rev (map json_image vs) @ es) # st), ok) ts"
  using assms
proof (induction vs arbitrary: es)
  case Nil
  then show ?case by simp
next
  case (Cons v vs)
  have v: "reads_value rd v" using Cons.prems by simp
  have "run rd (Sep (ArrF es # st), ok)
          (Comma # tokens_of v @ concat (map (\<lambda>v. Comma # tokens_of v) vs) @ ts) =
        run rd (Sep (ArrF (json_image v # es) # st), ok)
          (concat (map (\<lambda>v. Comma # tokens_of v) vs) @ ts)"
    by (simp add: step_def reads_valueD(1) [OF v] delivered_def)
  also have "\<dots> = run rd (Sep (ArrF (rev (map json_image vs) @ json_image v # es) # st), ok) ts"
    using Cons.IH [of "json_image v # es"] Cons.prems by simp
  finally show ?case by simp
qed

lemma run_members:
  assumes "\<And>m. m \<in> set ms \<Longrightarrow> reads_value rd (snd m)"
  shows "run rd (Sep (ObjF acc None # st), ok)
           (concat (map (\<lambda>m. Comma # StrTok (fst m) # Colon # tokens_of (snd m)) ms) @ ts) =
         run rd (Sep (ObjF (rev (map (\<lambda>m. (fst m, json_image (snd m))) ms) @ acc) None # st), ok) ts"
  using assms
proof (induction ms arbitrary: acc)
  case Nil
  then show ?case by simp
next
  case (Cons m ms)
  have v: "reads_value rd (snd m)" using Cons.prems by simp
  have "run rd (Sep (ObjF acc None # st), ok)
          (Comma # StrTok (fst m) # Colon # tokens_of (snd m) @
           concat (map (\<lambda>m. Comma # StrTok (fst m) # Colon # tokens_of (snd m)) ms) @ ts) =
        run rd (Sep (ObjF ((fst m, json_image (snd m)) # acc) None # st), ok)
          (concat (map (\<lambda>m. Comma # StrTok (fst m) # Colon # tokens_of (snd m)) ms) @ ts)"
    by (simp add: step_def begin_key_def reads_valueD(1) [OF v] delivered_def)
  also have "\<dots> =
      run rd (Sep (ObjF (rev (map (\<lambda>m. (fst m, json_image (snd m))) ms) @
                         (fst m, json_image (snd m)) # acc) None # st), ok) ts"
    using Cons.IH [of "(fst m, json_image (snd m)) # acc"] Cons.prems by simp
  finally show ?case by simp
qed

lemma reads_scalar:
  "reads_value rd JNull" "reads_value rd (JBool b)" "reads_value rd (JNum (Whole n))"
  "reads_value rd (JNum NegZero)" "reads_value rd (JNum NaN)" "reads_value rd (JNum PosInfinity)"
  "reads_value rd (JNum NegInfinity)" "reads_value rd (JStr s)"
  by (cases b; simp add: reads_value_def step_def begin_value_def split: option.splits)+

lemma reads_float: "rd t = Some (Float t) \<Longrightarrow> reads_value rd (JNum (Float t))"
  by (simp add: reads_value_def step_def begin_value_def split: option.splits)

lemma reads_array:
  assumes "\<And>v. v \<in> set vs \<Longrightarrow> reads_value rd v"
  shows "reads_value rd (JArr vs)"
proof (cases vs)
  case Nil
  then show ?thesis
    by (simp add: reads_value_def step_def begin_value_def close_array_def split: option.splits)
next
  case (Cons v vs')
  have v: "reads_value rd v" and vs': "\<And>x. x \<in> set vs' \<Longrightarrow> reads_value rd x"
    using assms Cons by simp_all
  have inner: "run rd (ValOrClose (ArrF [] # st), ok)
          (tokens_of v @ concat (map (\<lambda>v. Comma # tokens_of v) vs') @ RBracket # ts) =
        (case delivered (json_image (JArr vs)) st ok of None \<Rightarrow> None | Some s \<Rightarrow> run rd s ts)"
    for st ok ts
  proof -
    have "run rd (ValOrClose (ArrF [] # st), ok)
          (tokens_of v @ concat (map (\<lambda>v. Comma # tokens_of v) vs') @ RBracket # ts) =
        run rd (Sep (ArrF [json_image v] # st), ok)
          (concat (map (\<lambda>v. Comma # tokens_of v) vs') @ RBracket # ts)"
      by (simp add: reads_valueD(2) [OF v] delivered_def)
    also have "\<dots> = run rd (Sep (ArrF (rev (map json_image vs') @ [json_image v]) # st), ok) (RBracket # ts)"
      using run_elements [OF vs', where es = "[json_image v]" and st = st and ok = ok
          and ts = "RBracket # ts"] by simp
    also have "\<dots> =
        (case delivered (json_image (JArr vs)) st ok of None \<Rightarrow> None | Some s \<Rightarrow> run rd s ts)"
      by (simp add: step_def close_array_def Cons rev_map)
    finally show ?thesis .
  qed
  have toks: "tokens_of (JArr vs) @ ts =
      LBracket # tokens_of v @ concat (map (\<lambda>v. Comma # tokens_of v) vs') @ RBracket # ts" for ts
    by (simp add: Cons join_tokens_concat map_concat comp_def)
  show ?thesis
    unfolding reads_value_def toks
    by (simp add: step_def begin_value_def inner)
qed

text \<open>Creating the members of an object looks at the keys only.\<close>

lemma put_map:
  "put k (f v) (map (\<lambda>m. (fst m, f (snd m))) obj) = map (\<lambda>m. (fst m, f (snd m))) (put k v obj)"
  by (induction obj) simp_all

lemma build_map:
  "build (map (\<lambda>m. (fst m, f (snd m))) ms) = map (\<lambda>m. (fst m, f (snd m))) (build ms)"
proof -
  let ?F = "map (\<lambda>m. (fst m, f (snd m)))"
  have "foldl (\<lambda>obj m. put (fst m) (snd m) obj) (?F acc) (?F ms) =
        ?F (foldl (\<lambda>obj m. put (fst m) (snd m) obj) acc ms)" for acc
    by (induction ms arbitrary: acc) (simp_all add: put_map)
  from this [of "[]"] show ?thesis
    by (simp add: build_def)
qed

lemma reads_object:
  assumes "\<And>m. m \<in> set ms \<Longrightarrow> reads_value rd (snd m)" and "property_list ms"
  shows "reads_value rd (JObj ms)"
proof (cases ms)
  case Nil
  then show ?thesis
    by (simp add: reads_value_def step_def begin_value_def close_object_def build_def
        delivered_def split: option.splits)
next
  case (Cons m ms')
  let ?member = "\<lambda>m. Comma # StrTok (fst m) # Colon # tokens_of (snd m)"
  let ?image = "\<lambda>m. (fst m, json_image (snd m))"
  have v: "reads_value rd (snd m)" and ms': "\<And>x. x \<in> set ms' \<Longrightarrow> reads_value rd (snd x)"
    using assms Cons by simp_all
  have built: "build (map ?image ms) = map ?image ms"
    using assms(2) by (simp add: build_map property_list_def)
  have inner: "run rd (KeyOrClose (ObjF [] None # st), ok)
          (StrTok (fst m) # Colon # tokens_of (snd m) @ concat (map ?member ms') @ RBrace # ts) =
        (case delivered (json_image (JObj ms)) st ok of None \<Rightarrow> None | Some s \<Rightarrow> run rd s ts)"
    for st ok ts
  proof -
    have "run rd (KeyOrClose (ObjF [] None # st), ok)
          (StrTok (fst m) # Colon # tokens_of (snd m) @ concat (map ?member ms') @ RBrace # ts) =
        run rd (Sep (ObjF [?image m] None # st), ok) (concat (map ?member ms') @ RBrace # ts)"
      by (simp add: step_def begin_key_def reads_valueD(1) [OF v] delivered_def)
    also have "\<dots> = run rd (Sep (ObjF (rev (map ?image ms') @ [?image m]) None # st), ok) (RBrace # ts)"
      using run_members [OF ms', where acc = "[?image m]" and st = st and ok = ok
          and ts = "RBrace # ts"] by simp
    also have "\<dots> =
        (case delivered (json_image (JObj ms)) st ok of None \<Rightarrow> None | Some s \<Rightarrow> run rd s ts)"
      using built by (simp add: step_def close_object_def Cons rev_map)
    finally show ?thesis .
  qed
  have toks: "tokens_of (JObj ms) @ ts =
      LBrace # StrTok (fst m) # Colon # tokens_of (snd m) @ concat (map ?member ms') @ RBrace # ts" for ts
    by (simp add: Cons join_tokens_concat map_concat comp_def)
  show ?thesis
    unfolding reads_value_def toks
    using inner by (simp add: step_def begin_value_def)
qed

lemma writable_reads: "writable rd v \<Longrightarrow> reads_value rd v"
proof (induction v)
  case (JNum n)
  then show ?case
    by (cases n) (simp_all add: reads_scalar reads_float is_float_def split: if_splits)
next
  case (JArr vs)
  then show ?case by (auto intro!: reads_array simp: list_all_iff)
next
  case (JObj ms)
  then show ?case by (auto intro!: reads_object simp: list_all_iff snds.simps)
qed (simp_all add: reads_scalar)

lemma JSON_parse_text_of:
  assumes "writable rd v"
  shows "JSON_parse rd (text_of rd v) = Parsed (json_image v)"
proof -
  have "scan (text_of rd v @ []) = map_option ((@) (tokens_of v)) (scan [])"
    using scan_text_of [OF assms] number_end_closers(1) by blast
  then have "scan (text_of rd v) = Some (tokens_of v)"
    by (simp add: scan.simps)
  moreover have "run rd (Val [], True) (tokens_of v) = Some (Done (json_image v), True)"
    using reads_valueD(1) [OF writable_reads [OF assms], of "[]" True "[]"]
    by (simp add: delivered_def)
  ultimately show ?thesis
    by (simp add: JSON_parse_def)
qed

lemma JSON_parse_empty: "JSON_parse rd [] = SyntaxError"
  by (simp add: JSON_parse_def scan.simps)

lemma stringify_writable: "writable rd v \<Longrightarrow> stringify_value rd v = Returned (text_of rd v)"
  using scan_text_of [of rd v] by simp

lemma json_image_finite: "finite_numbers v \<Longrightarrow> json_image v = positive_zero v"
proof (induction v)
  case (JNum n)
  then show ?case by (cases n) simp_all
next
  case (JArr vs)
  then show ?case by (simp add: list_all_iff)
next
  case (JObj ms)
  then show ?case by (auto simp: list_all_iff snds.simps)
qed simp_all

lemma serialize_text_of:
  assumes "writable rd v" and "finite_numbers v" and "\<And>s. v \<noteq> JStr s"
  shows "serialize rd v = Returned (text_of rd v)"
proof -
  have js: "JSON_stringify rd v = Returned (text_of rd v)"
    using stringify_writable [OF assms(1)] by (simp add: JSON_stringify_def)
  show ?thesis
  proof (cases v)
    case (JNum n)
    with assms(1,2) show ?thesis
      by (cases n) (auto simp: serialize_def text_of_def split: if_splits)
  next
    case (JBool b)
    then show ?thesis by (simp add: serialize_def text_of_def)
  next
    case (JStr s)
    with assms(3) [of s] show ?thesis by simp
  qed (use js in \<open>simp_all add: serialize_def\<close>)
qed

lemma serialize_reads_back:
  assumes "reads_back rd v"
  obtains t where "serialize rd v = Returned t" and "t \<noteq> []"
    and "parse rd t = Some (positive_zero v)"
proof (cases "\<exists>s. v = JStr s")
  case True
  then obtain s where "v = JStr s" by blast
  with assms show ?thesis
    using that [of s] by (simp add: reads_back_def serialize_def parse_def)
next
  case False
  with assms have safe: "writable rd v" and fin: "finite_numbers v"
    by (cases v; simp add: reads_back_def)+
  have p: "JSON_parse rd (text_of rd v) = Parsed (positive_zero v)"
    using JSON_parse_text_of [OF safe] json_image_finite [OF fin] by simp
  then have ne: "text_of rd v \<noteq> []"
    using JSON_parse_empty [of rd] by auto
  have "serialize rd v = Returned (text_of rd v)"
    using False by (intro serialize_text_of [OF safe fin]) blast
  with p ne show ?thesis
    using that [of "text_of rd v"] by (simp add: parse_def)
qed

lemma JSON_parse_null: "JSON_parse rd ''null'' = Parsed JNull"
  using JSON_parse_text_of [of rd JNull] by (simp add: text_of_def)

lemma JSON_parse_5: "JSON_parse rd ''5'' = Parsed (JNum (Whole 5))"
  using JSON_parse_text_of [of rd "JNum (Whole 5)"]
  by (simp add: text_of_def safe_integer_def show_int_5)

lemma JSON_parse_Jane: "JSON_parse rd ''Jane'' = SyntaxError"
  by (simp add: JSON_parse_def scan.simps is_ws_def is_digit_def)

text \<open>A text is never JSON for the string that it is.\<close>

lemma deliver_frames:
  "deliver v st = Some p \<Longrightarrow> st \<noteq> [] \<Longrightarrow> frames p \<noteq> []"
  by (cases "(v, st)" rule: deliver.cases) auto

lemma deliver_top:
  "deliver v st = Some p \<Longrightarrow> frames p \<noteq> [] \<or> p = Done v"
  by (cases "(v, st)" rule: deliver.cases) auto

lemma begin_value_frames:
  "begin_value rd t st ok = Some (p, ok') \<Longrightarrow> st \<noteq> [] \<Longrightarrow> frames p \<noteq> []"
  by (auto simp: begin_value_def delivered_def dest: deliver_frames split: token.splits option.splits)

lemma begin_key_frames:
  "begin_key t st ok = Some (p, ok') \<Longrightarrow> frames p \<noteq> []"
  by (auto simp: begin_key_def split: token.splits list.splits frame.splits option.splits)

lemma close_array_frames:
  "close_array st ok = Some (p, ok') \<Longrightarrow> frames p \<noteq> [] \<or> (\<exists>v. p = Done v \<and> structured v)"
  using deliver_top
  by (fastforce simp: close_array_def delivered_def structured_def split: list.splits frame.splits)

lemma close_object_frames:
  "close_object st ok = Some (p, ok') \<Longrightarrow> frames p \<noteq> [] \<or> (\<exists>v. p = Done v \<and> structured v)"
  using deliver_top
  by (fastforce simp: close_object_def delivered_def structured_def split: list.splits frame.splits option.splits)

lemma step_frames:
  assumes "step rd (p, ok) t = Some (p', ok')" and "frames p \<noteq> []"
  shows "frames p' \<noteq> [] \<or> (\<exists>v. p' = Done v \<and> structured v)"
proof (cases p)
  case (Val st)
  with assms show ?thesis
    by (auto simp: step_def dest: begin_value_frames)
next
  case (ValOrClose st)
  with assms show ?thesis
    by (cases t) (auto simp: step_def dest: begin_value_frames close_array_frames)
next
  case (KeyOrClose st)
  with assms show ?thesis
    by (cases t) (auto simp: step_def dest: begin_key_frames close_object_frames)
next
  case (Key st)
  with assms show ?thesis
    by (auto simp: step_def dest: begin_key_frames)
next
  case (AfterKey st)
  with assms show ?thesis
    by (cases t) (auto simp: step_def)
next
  case (Sep st)
  with assms show ?thesis
    by (cases t) (auto simp: step_def dest: close_array_frames close_object_frames
        split: list.splits frame.splits option.splits)
next
  case (Done v)
  with assms show ?thesis by simp
qed

lemma run_done:
  "run rd (Done u, ok) ts = Some (Done v, ok') \<Longrightarrow> ts = [] \<and> u = v"
  by (cases ts) (simp_all add: step_def)

lemma run_frames:
  "run rd (p, ok) ts = Some (Done v, ok') \<Longrightarrow> frames p \<noteq> [] \<Longrightarrow> structured v"
proof (induction ts arbitrary: p ok)
  case Nil
  then show ?case by auto
next
  case (Cons t ts)
  then obtain p' ok'' where s: "step rd (p, ok) t = Some (p', ok'')"
    and r: "run rd (p', ok'') ts = Some (Done v, ok')"
    by (auto split: option.splits)
  from step_frames [OF s Cons.prems(2)] show ?case
  proof
    assume "frames p' \<noteq> []"
    with Cons.IH r show ?thesis by blast
  next
    assume "\<exists>u. p' = Done u \<and> structured u"
    then obtain u where "p' = Done u" "structured u" by blast
    with r run_done [of rd u ok'' ts v ok'] show ?thesis by simp
  qed
qed

lemma scan_string_length:
  "scan_string cs = Some (Some x, r) \<Longrightarrow> length x + length r < length cs"
proof (induction cs arbitrary: x r rule: scan_string.induct)
  case 1
  then show ?case by simp
next
  case (2 c cs)
  show ?case
    using "2.prems" "2.IH"
    by (fastforce simp: prepend_def split: if_splits list.splits option.splits prod.splits)
qed

lemma scan_number_token: "scan_number s = Some (t, r) \<Longrightarrow> t \<noteq> StrTok x"
  by (auto simp: scan_number_def Let_def split: if_splits option.splits prod.splits)

lemma scan_first_token:
  assumes "scan (c # cs) = Some (t # ts)" and "\<not> is_ws c" and "c \<noteq> CHR 0x22"
  shows "t \<noteq> StrTok x"
proof -
  have "scan (c # cs) =
     (if c = CHR ''{'' then map_option (Cons LBrace) (scan cs)
      else if c = CHR ''}'' then map_option (Cons RBrace) (scan cs)
      else if c = CHR ''['' then map_option (Cons LBracket) (scan cs)
      else if c = CHR '']'' then map_option (Cons RBracket) (scan cs)
      else if c = CHR '','' then map_option (Cons Comma) (scan cs)
      else if c = CHR '':'' then map_option (Cons Colon) (scan cs)
      else if c = CHR ''-'' \<or> is_digit c then
        (case scan_number (c # cs) of
           None \<Rightarrow> None
         | Some (t, r) \<Rightarrow> map_option (Cons t) (scan r))
      else if take 4 (c # cs) = ''true'' then map_option (Cons TrueTok) (scan (drop 3 cs))
      else if take 5 (c # cs) = ''false'' then map_option (Cons FalseTok) (scan (drop 4 cs))
      else if take 4 (c # cs) = ''null'' then map_option (Cons NullTok) (scan (drop 3 cs))
      else None)"
    using assms(2,3) by (subst scan.simps) simp
  with assms(1) show ?thesis
    by (auto split: if_splits option.splits prod.splits dest: scan_number_token)
qed

lemma scan_single_string:
  "scan s = Some [StrTok x] \<Longrightarrow> length x < length s"
proof (induction s)
  case Nil
  then show ?case by (simp add: scan.simps)
next
  case (Cons c cs)
  show ?case
  proof (cases "is_ws c")
    case True
    with Cons show ?thesis by (simp add: scan.simps)
  next
    case False
    show ?thesis
    proof (cases "c = CHR 0x22")
      case True
      have "scan (c # cs) =
        (case scan_string cs of
           None \<Rightarrow> None
         | Some (s, r) \<Rightarrow>
             map_option (Cons (case s of None \<Rightarrow> OtherStr | Some x \<Rightarrow> StrTok x)) (scan r))"
        using True by (subst scan.simps) (simp add: is_ws_def)
      with Cons.prems obtain sx r where s: "scan_string cs = Some (sx, r)"
        and t: "map_option (Cons (case sx of None \<Rightarrow> OtherStr | Some y \<Rightarrow> StrTok y)) (scan r) =
                  Some [StrTok x]"
        by (auto split: option.splits)
      from t have "sx = Some x"
        by (cases sx) auto
      with s scan_string_length [of cs x r] show ?thesis by simp
    next
      case not_quote: False
      with Cons.prems False scan_first_token [of c cs "StrTok x" "[]" x] show ?thesis
        by simp
    qed
  qed
qed

lemma JSON_parse_string:
  assumes "JSON_parse rd s = Parsed (JStr x)"
  shows "length x < length s"
proof -
  from assms obtain ts ok where sc: "scan s = Some ts"
    and r: "run rd (Val [], True) ts = Some (Done (JStr x), ok)"
    by (auto simp: JSON_parse_def split: option.splits prod.splits pstate.splits if_splits)
  have "ts = [StrTok x]"
  proof (cases ts)
    case Nil
    with r show ?thesis by simp
  next
    case (Cons t ts')
    with r obtain p ok' where b: "begin_value rd t [] True = Some (p, ok')"
      and r': "run rd (p, ok') ts' = Some (Done (JStr x), ok)"
      by (auto simp: step_def split: option.splits)
    show ?thesis
    proof (cases "frames p = []")
      case False
      with run_frames [OF r'] show ?thesis by (simp add: structured_def)
    next
      case True
      with b obtain u where p: "p = Done u"
        and u: "t = StrTok x \<or> u \<noteq> JStr x"
        by (auto simp: begin_value_def delivered_def split: token.splits option.splits)
      from r' p have "ts' = []" and "u = JStr x"
        using run_done [of rd u ok' ts' "JStr x" ok] by simp_all
      with u Cons show ?thesis by simp
    qed
  qed
  with sc show ?thesis
    by (simp add: scan_single_string)
qed

lemma JSON_parse_not_itself: "JSON_parse rd s \<noteq> Parsed (JStr s)"
  using JSON_parse_string [of rd s s] by auto

subsection \<open>Failures of the client\<close>

text \<open>
  Claim C1 says that \<^verbatim>\<open>flush()\<close> does not raise when FLUSHALL fails: it logs a line and
  returns the token \<^verbatim>\<open>'OK'\<close>. The code logs the line, and then throws the token: for every
  error of the client the promise of \<^verbatim>\<open>flush\<close> rejects, with the string \<^verbatim>\<open>'OK'\<close> as the
  thrown value.
\<close>

theorem flush_rejects_with_token:
  "fault (connection w) = Some e \<Longrightarrow>
   flush w =
     (Rejected (ThrownValue (JStr ''OK'')),
      w\<lparr>connection := sent FLUSHALL (connection w),
        console := console w @ [''Cache FLUSH operation failed: '' @ error_message e]\<rparr>)"
  by (simp add: flush_def redis_flushall_def handleError_def console_error_def)

theorem flush_rejects_with_token_witness:
  "fault (connection (failing (Error ''Connection is closed.'') (\<lambda>_. None))) = Some (Error ''Connection is closed.'') \<and>
   fst (flush (failing (Error ''Connection is closed.'') (\<lambda>_. None))) = Rejected (ThrownValue (JStr ''OK'')) \<and>
   console (snd (flush (failing (Error ''Connection is closed.'') (\<lambda>_. None)))) =
     [''Cache FLUSH operation failed: Connection is closed.'']"
  using flush_rejects_with_token [OF fault_failing, of "Error ''Connection is closed.''" "\<lambda>_. None"]
  by (simp add: failing_def fault_def)

text \<open>
  Claim C4 says that the error raised by a failing \<^verbatim>\<open>set\<close> or \<^verbatim>\<open>delete\<close> carries the
  operation name, the message \<^verbatim>\<open>Cache <OPERATION> operation failed: <underlying message>\<close>
  and the underlying error as its cause. In the code the handler formats the message and the
  constructor of \<^verbatim>\<open>CacheError\<close> formats it again, and the handler does not pass the
  underlying error on: the message carries the prefix twice, and the cause is a new
  \<^verbatim>\<open>Error\<close> made from the formatted message.
\<close>

theorem failure_error_of_set_and_delete:
  "fault (connection w) = Some e \<Longrightarrow> serialize rd val = Returned t \<Longrightarrow>
   fst (set_entry rd key val ttl w) =
     Rejected (ThrownCacheError
       \<lparr> name = ''CacheError'',
         message = ''Cache SET operation failed: Cache SET operation failed: '' @ error_message e,
         operation = ''SET'',
         originalError = Error (''Cache SET operation failed: '' @ error_message e) \<rparr>) \<and>
   fst (delete key w) =
     Rejected (ThrownCacheError
       \<lparr> name = ''CacheError'',
         message = ''Cache DELETE operation failed: Cache DELETE operation failed: '' @ error_message e,
         operation = ''DELETE'',
         originalError = Error (''Cache DELETE operation failed: '' @ error_message e) \<rparr>)"
  by (auto simp: set_entry_def delete_def redis_set_def redis_setex_def redis_del_def
      handleError_def CacheError_def Let_def split: option.splits)

theorem failure_error_of_set_and_delete_witness:
  "fst (set_entry example_reader ''user:1'' (JStr ''John'') None (failing (Error ''boom'') (\<lambda>_. None))) =
     Rejected (ThrownCacheError
       \<lparr> name = ''CacheError'',
         message = ''Cache SET operation failed: Cache SET operation failed: boom'',
         operation = ''SET'',
         originalError = Error ''Cache SET operation failed: boom'' \<rparr>) \<and>
   Error ''Cache SET operation failed: boom'' \<noteq> Error ''boom''"
  using failure_error_of_set_and_delete
    [where w = "failing (Error ''boom'') (\<lambda>_. None)" and e = "Error ''boom''"
      and val = "JStr ''John''" and t = "''John''" and key = "''user:1''" and ttl = None
      and rd = example_reader]
  by (simp add: serialize_def)

text \<open>
  Claim C6: when the read fails, \<^verbatim>\<open>get\<close> writes the line
  \<^verbatim>\<open>Cache GET operation failed: <underlying message>\<close> and resolves to \<^verbatim>\<open>null\<close>; and
  in no state at all does the promise of \<^verbatim>\<open>get\<close> reject.
\<close>

theorem get_fails_open:
  "(fault (connection w) = Some e \<longrightarrow>
      get rd key w =
        (Resolved JNull,
         w\<lparr>connection := sent (GET key) (connection w),
           console := console w @ [''Cache GET operation failed: '' @ error_message e]\<rparr>)) \<and>
   (\<forall>t. fst (get rd key w) \<noteq> Rejected t)"
  by (simp add: get_rejected get_never_rejects)

theorem get_fails_open_witness:
  "fst (get example_reader ''user:1'' (failing (Error ''read ECONNRESET'') (holding ''user:1'' ''John''))) =
     Resolved JNull \<and>
   console (snd (get example_reader ''user:1''
                  (failing (Error ''read ECONNRESET'') (holding ''user:1'' ''John'')))) =
     [''Cache GET operation failed: read ECONNRESET'']"
  using get_fails_open [of "failing (Error ''read ECONNRESET'') (holding ''user:1'' ''John'')"
      "Error ''read ECONNRESET''" example_reader "''user:1''"]
  by (simp add: failing_def fault_def)

subsection \<open>The client of the facade\<close>

text \<open>
  Claim C5 says that the facade keeps the very client it is given, the one of the cluster
  factory included. The constructor keeps its argument only when it is an
  \<^verbatim>\<open>instanceof Redis\<close>. The cluster client that the factory builds is not one, so the
  constructor passes it to \<^verbatim>\<open>new Redis\<close>: the facade holds a second, single-node
  client, and \<^verbatim>\<open>client()\<close> returns that one. The same happens to a cluster client that
  is passed to the constructor directly; a single-node client is kept as it is.
\<close>

theorem Cluster_wraps_new_client:
  "client (fst (Cluster nodes options made)) = RedisClient (Suc (length made)) \<and>
   snd (Cluster nodes options made) =
     made @ [ClusterClient (length made), RedisClient (Suc (length made))] \<and>
   Cache (ArgClient (ClusterClient i) # rest) made =
     (\<lparr>redis = RedisClient (length made)\<rparr>, made @ [RedisClient (length made)]) \<and>
   Cache (ArgClient (RedisClient i) # rest) made = (\<lparr>redis = RedisClient i\<rparr>, made)"
  by (simp add: Cluster_def new_Cluster_def Cache_def instanceof_Redis_def new_Redis_def client_def)

subsection \<open>Reading the empty string\<close>

text \<open>
  Claim C10: a key that holds the empty string reads as absent, whether the read succeeds
  or fails, and \<^verbatim>\<open>exists\<close> is true of it whenever the client answers.
\<close>

theorem empty_text_reads_absent:
  "entries (connection w) key = Some e \<Longrightarrow> stored e = [] \<Longrightarrow>
   fst (get rd key w) = Resolved JNull \<and>
   (fault (connection w) = None \<longrightarrow> fst (exists key w) = Resolved True)"
  by (cases "fault (connection w)") (simp_all add: get_accepted get_rejected exists_accepted)

theorem empty_text_reads_absent_witness:
  "entries (connection (serving (holding ''k'' ''''))) ''k'' = Some \<lparr>stored = '''', expiry = None\<rparr> \<and>
   fst (get example_reader ''k'' (serving (holding ''k'' ''''))) = Resolved JNull \<and>
   fst (exists ''k'' (serving (holding ''k'' ''''))) = Resolved True"
  using empty_text_reads_absent [of "serving (holding ''k'' '''')" "''k''"
      "\<lparr>stored = '''', expiry = None\<rparr>" example_reader]
  by (simp add: serving_def holding_def fault_def)

subsection \<open>exists and get\<close>

text \<open>
  Claim C7 says that \<^verbatim>\<open>exists(k)\<close> is true if and only if \<^verbatim>\<open>get(k)\<close> is not absent.
  It fails for a key that holds the text \<^verbatim>\<open>null\<close>: the key exists, and \<^verbatim>\<open>get\<close> decodes
  its text to \<^verbatim>\<open>null\<close>, the absent value.
\<close>

theorem exists_without_value_counterexample:
  "fst (exists ''k'' (serving (holding ''k'' ''null''))) = Resolved True \<and>
   fst (get example_reader ''k'' (serving (holding ''k'' ''null''))) = Resolved JNull"
  by (simp add: exists_accepted get_accepted parse_def JSON_parse_null)

text \<open>
  Claim C7 as amended: when the client answers, \<^verbatim>\<open>exists(k)\<close> is true if and only if the
  store holds the key, and \<^verbatim>\<open>get(k)\<close> is not absent if and only if the store holds the key
  with a text that is neither empty nor JSON for \<^verbatim>\<open>null\<close>. So \<^verbatim>\<open>exists(k)\<close> is true
  whenever \<^verbatim>\<open>get(k)\<close> is not absent, and not the other way round.
\<close>

theorem exists_and_get:
  assumes "fault (connection w) = None"
  shows "fst (exists key w) = Resolved (entries (connection w) key \<noteq> None) \<and>
    (fst (get rd key w) \<noteq> Resolved JNull \<longleftrightarrow>
       (\<exists>e. entries (connection w) key = Some e \<and> stored e \<noteq> [] \<and>
            JSON_parse rd (stored e) \<noteq> Parsed JNull))"
proof (cases "entries (connection w) key")
  case None
  with assms show ?thesis by (simp add: exists_accepted get_accepted)
next
  case (Some e)
  with assms show ?thesis
    by (cases "JSON_parse rd (stored e)") (simp_all add: exists_accepted get_accepted parse_def)
qed

theorem exists_and_get_witness:
  "fault (connection (serving (holding ''k'' ''5''))) = None \<and>
   fst (exists ''k'' (serving (holding ''k'' ''5''))) = Resolved True \<and>
   fst (get example_reader ''k'' (serving (holding ''k'' ''5''))) \<noteq> Resolved JNull"
  using exists_and_get [of "serving (holding ''k'' ''5'')" "''k''" example_reader]
  by (simp add: JSON_parse_5)


subsection \<open>The stored text\<close>

text \<open>
  Claim C8. A string is stored as it is, with no quotation marks around it (the text that
  \<^verbatim>\<open>JSON.stringify\<close> gives for it is another one). A boolean is stored as \<^verbatim>\<open>true\<close> or
  \<^verbatim>\<open>false\<close>. A number is stored as \<^verbatim>\<open>String\<close> prints it: a safe integer as its decimal
  numeral, which \<^verbatim>\<open>JSON.parse\<close> reads as that integer; any other finite number as the
  text that names it, which \<^verbatim>\<open>JSON.parse\<close> reads as that number; the negative zero as
  \<^verbatim>\<open>0\<close>; and NaN and the infinities as \<^verbatim>\<open>NaN\<close>, \<^verbatim>\<open>Infinity\<close> and \<^verbatim>\<open>-Infinity\<close>,
  which are not JSON. \<^verbatim>\<open>null\<close>, an array and an object are stored as the text that
  \<^verbatim>\<open>JSON.stringify\<close> gives, the error of \<^verbatim>\<open>JSON.stringify\<close> is raised under a new
  message, and the text of an array or an object is JSON for the value: \<^verbatim>\<open>JSON.parse\<close>
  reads it as the value that the text denotes. The number 5 and the string \<^verbatim>\<open>5\<close> are
  stored as the same text.
\<close>

theorem serialize_forms:
  "serialize rd (JStr s) = Returned s \<and>
   JSON_stringify rd (JStr s) = Returned (QuoteJSONString s) \<and> QuoteJSONString s \<noteq> s \<and>
   serialize rd (JBool True) = Returned ''true'' \<and>
   serialize rd (JBool False) = Returned ''false'' \<and>
   (safe_integer n \<longrightarrow>
      serialize rd (JNum (Whole n)) = Returned (show_int n) \<and>
      JSON_parse rd (show_int n) = Parsed (JNum (Whole n))) \<and>
   (is_float rd x \<longrightarrow>
      serialize rd (JNum (Float x)) = Returned x \<and>
      JSON_parse rd x = Parsed (JNum (Float x))) \<and>
   serialize rd (JNum NegZero) = Returned ''0'' \<and>
   serialize rd (JNum NaN) = Returned ''NaN'' \<and>
   serialize rd (JNum PosInfinity) = Returned ''Infinity'' \<and>
   serialize rd (JNum NegInfinity) = Returned ''-Infinity'' \<and>
   JSON_parse rd ''NaN'' = SyntaxError \<and>
   JSON_parse rd ''Infinity'' = SyntaxError \<and>
   JSON_parse rd ''-Infinity'' = SyntaxError \<and>
   serialize rd JNull = Returned ''null'' \<and>
   serialize rd (JArr vs) =
     (case JSON_stringify rd (JArr vs) of
        Returned t \<Rightarrow> Returned t
      | Thrown e \<Rightarrow> Thrown (Error (''Failed to serialize data: '' @ error_message e))
      | OutOfModel \<Rightarrow> OutOfModel) \<and>
   serialize rd (JObj ms) =
     (case JSON_stringify rd (JObj ms) of
        Returned t \<Rightarrow> Returned t
      | Thrown e \<Rightarrow> Thrown (Error (''Failed to serialize data: '' @ error_message e))
      | OutOfModel \<Rightarrow> OutOfModel) \<and>
   (writable rd (JArr vs) \<longrightarrow>
      (\<exists>t. serialize rd (JArr vs) = Returned t \<and> JSON_parse rd t = Parsed (json_image (JArr vs)))) \<and>
   (writable rd (JObj ms) \<longrightarrow>
      (\<exists>t. serialize rd (JObj ms) = Returned t \<and> JSON_parse rd t = Parsed (json_image (JObj ms)))) \<and>
   serialize rd (JNum (Whole 5)) = Returned ''5'' \<and>
   serialize rd (JStr ''5'') = Returned ''5''"
proof -
  have quoted: "QuoteJSONString s \<noteq> s"
    using quoted_longer [of s] by auto
  have whole: "safe_integer n \<longrightarrow>
      serialize rd (JNum (Whole n)) = Returned (show_int n) \<and>
      JSON_parse rd (show_int n) = Parsed (JNum (Whole n))"
    using JSON_parse_text_of [of rd "JNum (Whole n)"]
    by (auto simp: serialize_def text_of_def)
  have float: "is_float rd x \<longrightarrow>
      serialize rd (JNum (Float x)) = Returned x \<and>
      JSON_parse rd x = Parsed (JNum (Float x))"
    using JSON_parse_text_of [of rd "JNum (Float x)"]
    by (auto simp: serialize_def text_of_def)
  have names: "JSON_parse rd ''NaN'' = SyntaxError \<and>
      JSON_parse rd ''Infinity'' = SyntaxError \<and>
      JSON_parse rd ''-Infinity'' = SyntaxError"
    by (simp add: JSON_parse_def scan.simps is_ws_def is_digit_def scan_number_def)
  have structured: "\<exists>t. serialize rd v = Returned t \<and> JSON_parse rd t = Parsed (json_image v)"
    if "writable rd v" and "serialize rd v = JSON_stringify rd v" for v
    using stringify_writable [OF that(1)] JSON_parse_text_of [OF that(1)] that(2)
    by (simp add: JSON_stringify_def)
  have arr: "writable rd (JArr vs) \<longrightarrow>
      (\<exists>t. serialize rd (JArr vs) = Returned t \<and> JSON_parse rd t = Parsed (json_image (JArr vs)))"
  proof
    assume w: "writable rd (JArr vs)"
    have "serialize rd (JArr vs) = JSON_stringify rd (JArr vs)"
      using stringify_writable [OF w] by (simp add: serialize_def JSON_stringify_def)
    with w show "\<exists>t. serialize rd (JArr vs) = Returned t \<and>
        JSON_parse rd t = Parsed (json_image (JArr vs))"
      by (rule structured)
  qed
  have obj: "writable rd (JObj ms) \<longrightarrow>
      (\<exists>t. serialize rd (JObj ms) = Returned t \<and> JSON_parse rd t = Parsed (json_image (JObj ms)))"
  proof
    assume w: "writable rd (JObj ms)"
    have "serialize rd (JObj ms) = JSON_stringify rd (JObj ms)"
      using stringify_writable [OF w] by (simp add: serialize_def JSON_stringify_def)
    with w show "\<exists>t. serialize rd (JObj ms) = Returned t \<and>
        JSON_parse rd t = Parsed (json_image (JObj ms))"
      by (rule structured)
  qed
  have rest: "serialize rd (JStr s) = Returned s \<and>
      JSON_stringify rd (JStr s) = Returned (QuoteJSONString s) \<and>
      serialize rd (JBool True) = Returned ''true'' \<and>
      serialize rd (JBool False) = Returned ''false'' \<and>
      serialize rd (JNum NegZero) = Returned ''0'' \<and>
      serialize rd (JNum NaN) = Returned ''NaN'' \<and>
      serialize rd (JNum PosInfinity) = Returned ''Infinity'' \<and>
      serialize rd (JNum NegInfinity) = Returned ''-Infinity'' \<and>
      serialize rd JNull = Returned ''null'' \<and>
      serialize rd (JArr vs) =
        (case JSON_stringify rd (JArr vs) of
           Returned t \<Rightarrow> Returned t
         | Thrown e \<Rightarrow> Thrown (Error (''Failed to serialize data: '' @ error_message e))
         | OutOfModel \<Rightarrow> OutOfModel) \<and>
      serialize rd (JObj ms) =
        (case JSON_stringify rd (JObj ms) of
           Returned t \<Rightarrow> Returned t
         | Thrown e \<Rightarrow> Thrown (Error (''Failed to serialize data: '' @ error_message e))
         | OutOfModel \<Rightarrow> OutOfModel) \<and>
      serialize rd (JNum (Whole 5)) = Returned ''5'' \<and>
      serialize rd (JStr ''5'') = Returned ''5''"
    by (simp add: serialize_def JSON_stringify_def Boolean_toString_def show_int_5
        safe_integer_def)
  from quoted whole float names arr obj rest show ?thesis by blast
qed

theorem serialize_forms_witness:
  "safe_integer (- 1234) \<and>
   serialize example_reader (JNum (Whole (- 1234))) = Returned ''-1234'' \<and>
   JSON_parse example_reader ''-1234'' = Parsed (JNum (Whole (- 1234))) \<and>
   is_float example_reader ''1e+21'' \<and>
   serialize example_reader (JNum (Float ''1e+21'')) = Returned ''1e+21'' \<and>
   JSON_parse example_reader ''1e+21'' = Parsed (JNum (Float ''1e+21'')) \<and>
   writable example_reader (JArr [JNum (Whole 1), JStr ''a'', JNum (Float ''0.5''), JNum NaN]) \<and>
   writable example_reader (JObj [(''1'', JStr ''a''), (''hello'', JStr ''world'')]) \<and>
   (\<exists>t. serialize example_reader (JArr [JNum (Whole 1), JStr ''a'', JNum (Float ''0.5''), JNum NaN]) =
          Returned t \<and>
        JSON_parse example_reader t =
          Parsed (JArr [JNum (Whole 1), JStr ''a'', JNum (Float ''0.5''), JNull])) \<and>
   (\<exists>t. serialize example_reader (JObj [(''1'', JStr ''a''), (''hello'', JStr ''world'')]) =
          Returned t \<and>
        JSON_parse example_reader t =
          Parsed (JObj [(''1'', JStr ''a''), (''hello'', JStr ''world'')]))"
proof -
  have n: "safe_integer (- 1234)"
    by (simp add: safe_integer_def)
  have t: "show_int (- 1234) = ''-1234''"
    by code_simp
  have x: "is_float example_reader ''1e+21''"
    by code_simp
  have arr: "writable example_reader (JArr [JNum (Whole 1), JStr ''a'', JNum (Float ''0.5''), JNum NaN])"
    by code_simp
  have obj: "writable example_reader (JObj [(''1'', JStr ''a''), (''hello'', JStr ''world'')])"
    by code_simp
  have arr_image: "json_image (JArr [JNum (Whole 1), JStr ''a'', JNum (Float ''0.5''), JNum NaN]) =
      JArr [JNum (Whole 1), JStr ''a'', JNum (Float ''0.5''), JNull]"
    by simp
  have obj_image: "json_image (JObj [(''1'', JStr ''a''), (''hello'', JStr ''world'')]) =
      JObj [(''1'', JStr ''a''), (''hello'', JStr ''world'')]"
    by simp
  show ?thesis
    using serialize_forms [where rd = example_reader and s = "''a''" and n = "- 1234"
        and x = "''1e+21''" and vs = "[JNum (Whole 1), JStr ''a'', JNum (Float ''0.5''), JNum NaN]"
        and ms = "[(''1'', JStr ''a''), (''hello'', JStr ''world'')]"] n x arr obj
    unfolding t arr_image obj_image
    by blast
qed

subsection \<open>The command that set sends\<close>

text \<open>
  Claim C9 says that a TTL that is given, zero included, makes \<^verbatim>\<open>set\<close> send a write with
  expiry. With a TTL of zero the code sends the plain write, and the entry has no expiry.
\<close>

theorem zero_ttl_counterexample:
  "issued (connection (snd (set_entry example_reader ''k'' (JStr ''v'') (Some (Whole 0))
                             (serving (\<lambda>_. None))))) =
     [SET ''k'' ''v''] \<and>
   entries (connection (snd (set_entry example_reader ''k'' (JStr ''v'') (Some (Whole 0))
                              (serving (\<lambda>_. None))))) ''k'' =
     Some \<lparr>stored = ''v'', expiry = None\<rparr>"
  by (simp add: set_entry_def serialize_def redis_set_def sent_def serving_def fault_def)

text \<open>
  Claim C9 as amended: for a value that serializes, \<^verbatim>\<open>set\<close> sends exactly one command,
  whether the client accepts it or not: SETEX with the TTL when a TTL is given and is
  truthy (any number but zero and NaN, a negative one included), and the plain SET when no
  TTL is given or the TTL is zero or NaN.
\<close>

theorem set_command:
  assumes "serialize rd val = Returned t"
  shows "issued (connection (snd (set_entry rd key val ttl w))) =
     issued (connection w) @
       [case ttl of
          None \<Rightarrow> SET key t
        | Some n \<Rightarrow> if truthy_number n then SETEX key n t else SET key t]"
proof (cases "fault (connection w)")
  case None
  with assms show ?thesis
    by (simp add: set_entry_def redis_set_def redis_setex_def sent_def split: option.splits)
next
  case (Some e)
  with assms show ?thesis
    by (simp add: set_entry_def redis_set_def redis_setex_def sent_def handleError_def
        console_error_def Let_def split: option.splits)
qed

theorem set_command_witness:
  "serialize example_reader (JStr ''v'') = Returned ''v'' \<and>
   issued (connection (snd (set_entry example_reader ''k'' (JStr ''v'') (Some (Whole (- 5)))
                             (serving (\<lambda>_. None))))) =
     [SETEX ''k'' (Whole (- 5)) ''v'']"
  using set_command [of example_reader "JStr ''v''" "''v''" "''k''" "Some (Whole (- 5))"
      "serving (\<lambda>_. None)"]
  by (simp add: serialize_def serving_def)


subsection \<open>remember\<close>

lemma remember_hit:
  "fst (get rd key w) \<noteq> Resolved JNull \<Longrightarrow> remember rd key ttl cb w = get rd key w"
  by (cases "get rd key w"; cases "fst (get rd key w)") (auto simp: remember_def)

lemma remember_throwing:
  "get rd key w = (Resolved JNull, w1) \<Longrightarrow>
   remember rd key ttl (Producer (Inl th)) w = (Rejected th, w1\<lparr>invoked := Suc (invoked w1)\<rparr>)"
  by (simp add: remember_def resolve_def)

lemma remember_miss_state:
  assumes "get rd key w = (Resolved JNull, w1)"
  shows "snd (remember rd key ttl (Producer (Inr v)) w) =
           snd (set_entry rd key v (Some ttl) (w1\<lparr>invoked := Suc (invoked w1)\<rparr>))"
    and "snd (remember rd key ttl (Literal v) w) = snd (set_entry rd key v (Some ttl) w1)"
  using assms
  by (auto simp: remember_def resolve_def split: prod.splits completion.splits)

lemma remember_miss_result:
  assumes "get rd key w = (Resolved JNull, w1)"
    and "serialize rd v = Returned t" and "fault (connection w1) = None"
  shows "fst (remember rd key ttl (Producer (Inr v)) w) = Resolved v"
    and "fst (remember rd key ttl (Literal v) w) = Resolved v"
  using assms(1) set_entry_accepted [OF assms(2), of _ key "Some ttl"] assms(3)
  by (simp_all add: remember_def resolve_def)

text \<open>
  Claim C3 says that \<^verbatim>\<open>remember(k, t, source)\<close> on an absent key writes the resolved value
  with TTL \<^verbatim>\<open>t\<close>. With a TTL of zero the value is written by a plain SET and the entry has no
  expiry.
\<close>

theorem remember_zero_ttl_counterexample:
  "remember example_reader ''k'' (Whole 0) (Producer (Inr (JStr ''v''))) (serving (\<lambda>_. None)) =
     (Resolved (JStr ''v''),
      \<lparr> connection =
          \<lparr> entries = (\<lambda>_. None)(''k'' \<mapsto> \<lparr>stored = ''v'', expiry = None\<rparr>),
            issued = [GET ''k'', SET ''k'' ''v''],
            faults = (\<lambda>_. None) \<rparr>,
        console = [], invoked = 1 \<rparr>)"
  by (simp add: remember_def get_def redis_get_def resolve_def set_entry_def
      redis_set_def serialize_def sent_def serving_def fault_def)

text \<open>
  Claim C3 as amended. A key that is absent reads as \<^verbatim>\<open>null\<close>. Whenever \<^verbatim>\<open>get(k)\<close>
  resolves to \<^verbatim>\<open>null\<close>, for every TTL and whatever becomes of the write: a source that is
  a function is invoked exactly once, and a source that is a value is not invoked; the
  error of a source that throws is the error of \<^verbatim>\<open>remember\<close>; when the source resolves to
  a value that serializes, \<^verbatim>\<open>remember\<close> sends GET and then exactly one write of the
  serialized value, SETEX with the TTL when the TTL is truthy and the plain SET when it is
  zero or NaN; and when the client accepts the write, \<^verbatim>\<open>remember\<close> resolves to the value
  of the source and the entry holds its text. Whenever \<^verbatim>\<open>get(k)\<close> does not resolve to
  \<^verbatim>\<open>null\<close>, \<^verbatim>\<open>remember\<close> ends as \<^verbatim>\<open>get\<close> does, in the state that \<^verbatim>\<open>get\<close> leaves: the
  source is not invoked and nothing is written.
\<close>

theorem remember_miss_and_hit:
  "(entries (connection w) key = None \<longrightarrow> fst (get rd key w) = Resolved JNull) \<and>
   (fst (get rd key w) = Resolved JNull \<longrightarrow>
      invoked (snd (remember rd key ttl (Producer out) w)) = Suc (invoked w) \<and>
      invoked (snd (remember rd key ttl (Literal v) w)) = invoked w \<and>
      fst (remember rd key ttl (Producer (Inl th)) w) = Rejected th \<and>
      (serialize rd v = Returned t \<longrightarrow>
         issued (connection (snd (remember rd key ttl (Producer (Inr v)) w))) =
           issued (connection w) @
             [GET key, if truthy_number ttl then SETEX key ttl t else SET key t] \<and>
         issued (connection (snd (remember rd key ttl (Literal v) w))) =
           issued (connection w) @
             [GET key, if truthy_number ttl then SETEX key ttl t else SET key t] \<and>
         (faults (connection w) (Suc (length (issued (connection w)))) = None \<longrightarrow>
            fst (remember rd key ttl (Producer (Inr v)) w) = Resolved v \<and>
            fst (remember rd key ttl (Literal v) w) = Resolved v \<and>
            entries (connection (snd (remember rd key ttl (Producer (Inr v)) w))) key =
              Some \<lparr>stored = t, expiry = if truthy_number ttl then Some ttl else None\<rparr>))) \<and>
   (fst (get rd key w) \<noteq> Resolved JNull \<longrightarrow>
      remember rd key ttl cb w = get rd key w \<and>
      invoked (snd (remember rd key ttl cb w)) = invoked w \<and>
      issued (connection (snd (remember rd key ttl cb w))) = issued (connection w) @ [GET key])"
proof (intro conjI impI)
  assume "entries (connection w) key = None"
  then show "fst (get rd key w) = Resolved JNull"
    by (rule get_absent)
next
  assume hit: "fst (get rd key w) \<noteq> Resolved JNull"
  then show same: "remember rd key ttl cb w = get rd key w"
    by (rule remember_hit)
  show "invoked (snd (remember rd key ttl cb w)) = invoked w"
    by (simp add: same get_invoked)
  show "issued (connection (snd (remember rd key ttl cb w))) = issued (connection w) @ [GET key]"
    by (simp add: same get_issued)
next
  assume miss: "fst (get rd key w) = Resolved JNull"
  define w1 where "w1 = snd (get rd key w)"
  have g: "get rd key w = (Resolved JNull, w1)"
    using miss by (simp add: w1_def prod_eq_iff)
  have inv: "invoked w1 = invoked w"
    by (simp add: w1_def get_invoked)
  have iss: "issued (connection w1) = issued (connection w) @ [GET key]"
    by (simp add: w1_def get_issued)
  have flt: "fault (connection w1) = faults (connection w) (Suc (length (issued (connection w))))"
    by (simp add: fault_def w1_def get_issued get_faults)
  show "invoked (snd (remember rd key ttl (Producer out) w)) = Suc (invoked w)"
  proof (cases out)
    case (Inl e)
    then show ?thesis
      by (simp add: remember_throwing [OF g] inv)
  next
    case (Inr x)
    then show ?thesis
      by (simp add: remember_miss_state(1) [OF g] set_entry_invoked inv)
  qed
  show "invoked (snd (remember rd key ttl (Literal v) w)) = invoked w"
    by (simp add: remember_miss_state(2) [OF g] set_entry_invoked inv)
  show "fst (remember rd key ttl (Producer (Inl th)) w) = Rejected th"
    by (simp add: remember_throwing [OF g])
  assume s: "serialize rd v = Returned t"
  show "issued (connection (snd (remember rd key ttl (Producer (Inr v)) w))) =
      issued (connection w) @ [GET key, if truthy_number ttl then SETEX key ttl t else SET key t]"
    by (simp add: remember_miss_state(1) [OF g] set_entry_issued [OF s] iss)
  show "issued (connection (snd (remember rd key ttl (Literal v) w))) =
      issued (connection w) @ [GET key, if truthy_number ttl then SETEX key ttl t else SET key t]"
    by (simp add: remember_miss_state(2) [OF g] set_entry_issued [OF s] iss)
  assume "faults (connection w) (Suc (length (issued (connection w)))) = None"
  then have f: "fault (connection w1) = None"
    by (simp add: flt)
  show "fst (remember rd key ttl (Producer (Inr v)) w) = Resolved v"
    by (rule remember_miss_result(1) [OF g s f])
  show "fst (remember rd key ttl (Literal v) w) = Resolved v"
    by (rule remember_miss_result(2) [OF g s f])
  have f': "fault (connection (w1\<lparr>invoked := Suc (invoked w1)\<rparr>)) = None"
    using f by simp
  show "entries (connection (snd (remember rd key ttl (Producer (Inr v)) w))) key =
      Some \<lparr>stored = t, expiry = if truthy_number ttl then Some ttl else None\<rparr>"
    by (simp add: remember_miss_state(1) [OF g] set_entry_accepted [OF s f'])
qed

theorem remember_miss_and_hit_witness:
  "entries (connection (serving (\<lambda>_. None))) ''user:2'' = None \<and>
   fst (get example_reader ''user:2'' (serving (\<lambda>_. None))) = Resolved JNull \<and>
   serialize example_reader (JStr ''Jane'') = Returned ''Jane'' \<and>
   faults (connection (serving (\<lambda>_. None))) (Suc (length (issued (connection (serving (\<lambda>_. None)))))) = None \<and>
   fst (remember example_reader ''user:2'' (Whole 3600) (Producer (Inr (JStr ''Jane'')))
          (serving (\<lambda>_. None))) = Resolved (JStr ''Jane'') \<and>
   invoked (snd (remember example_reader ''user:2'' (Whole 3600) (Producer (Inr (JStr ''Jane'')))
                   (serving (\<lambda>_. None)))) = 1 \<and>
   issued (connection (snd (remember example_reader ''user:2'' (Whole 3600)
                              (Producer (Inr (JStr ''Jane''))) (serving (\<lambda>_. None))))) =
     [GET ''user:2'', SETEX ''user:2'' (Whole 3600) ''Jane''] \<and>
   fst (get example_reader ''user:2'' (serving (holding ''user:2'' ''Jane''))) \<noteq> Resolved JNull \<and>
   fst (remember example_reader ''user:2'' (Whole 3600) (Producer (Inr (JStr ''Joe'')))
          (serving (holding ''user:2'' ''Jane''))) = Resolved (JStr ''Jane'') \<and>
   invoked (snd (remember example_reader ''user:2'' (Whole 3600) (Producer (Inr (JStr ''Joe'')))
                   (serving (holding ''user:2'' ''Jane'')))) = 0 \<and>
   issued (connection (snd (remember example_reader ''user:2'' (Whole 3600)
                              (Producer (Inr (JStr ''Joe''))) (serving (holding ''user:2'' ''Jane''))))) =
     [GET ''user:2'']"
proof -
  have absent: "entries (connection (serving (\<lambda>_. None))) ''user:2'' = None"
    by simp
  have miss: "fst (get example_reader ''user:2'' (serving (\<lambda>_. None))) = Resolved JNull"
    by (simp add: get_accepted)
  have written: "serialize example_reader (JStr ''Jane'') = Returned ''Jane''"
    by (simp add: serialize_def)
  have accepted:
    "faults (connection (serving (\<lambda>_. None))) (Suc (length (issued (connection (serving (\<lambda>_. None)))))) = None"
    by (simp add: serving_def)
  have start: "invoked (serving (\<lambda>_. None)) = 0" "issued (connection (serving (\<lambda>_. None))) = []"
    "invoked (serving (holding ''user:2'' ''Jane'')) = 0"
    "issued (connection (serving (holding ''user:2'' ''Jane''))) = []"
    by (simp_all add: serving_def)
  have cached: "get example_reader ''user:2'' (serving (holding ''user:2'' ''Jane'')) =
      (Resolved (JStr ''Jane''),
       serving (holding ''user:2'' ''Jane'')
         \<lparr>connection := sent (GET ''user:2'') (connection (serving (holding ''user:2'' ''Jane'')))\<rparr>)"
    by (simp add: get_accepted parse_def JSON_parse_Jane)
  then have hit: "fst (get example_reader ''user:2'' (serving (holding ''user:2'' ''Jane''))) \<noteq> Resolved JNull"
    by simp
  show ?thesis
    using remember_miss_and_hit [where rd = example_reader and w = "serving (\<lambda>_. None)"
        and key = "''user:2''" and v = "JStr ''Jane''" and t = "''Jane''" and ttl = "Whole 3600"
        and out = "Inr (JStr ''Jane'')"]
      remember_miss_and_hit [where rd = example_reader and w = "serving (holding ''user:2'' ''Jane'')"
        and key = "''user:2''" and ttl = "Whole 3600" and cb = "Producer (Inr (JStr ''Joe''))"]
      absent miss written accepted hit
    by (simp add: start cached sent_def)
qed

subsection \<open>set followed by get\<close>

lemma set_then_get_text:
  assumes "serialize rd v = Returned t"
    and "fault (connection w) = None"
    and "faults (connection w) (Suc (length (issued (connection w)))) = None"
  shows "fst (set_entry rd key v ttl w) = Resolved ''OK''"
    and "fst (get rd key (snd (set_entry rd key v ttl w))) =
           (if t = [] then Resolved JNull
            else (case parse rd t of Some u \<Rightarrow> Resolved u | None \<Rightarrow> Unmodelled))"
proof -
  let ?w = "snd (set_entry rd key v ttl w)"
  have st: "set_entry rd key v ttl w =
     (Resolved ''OK'',
      w\<lparr>connection := (connection w)
          \<lparr>entries := (entries (connection w))
             (key \<mapsto> \<lparr>stored = t,
                        expiry = (case ttl of None \<Rightarrow> None
                                  | Some n \<Rightarrow> if truthy_number n then Some n else None)\<rparr>),
           issued := issued (connection w) @
             [case ttl of None \<Rightarrow> SET key t
              | Some n \<Rightarrow> if truthy_number n then SETEX key n t else SET key t]\<rparr>\<rparr>)"
    by (rule set_entry_accepted [OF assms(1,2)])
  show "fst (set_entry rd key v ttl w) = Resolved ''OK''"
    by (simp add: st)
  have f: "fault (connection ?w) = None"
    using assms(3) by (simp add: st fault_def)
  have "entries (connection ?w) key \<noteq> None" and "stored (the (entries (connection ?w) key)) = t"
    by (simp_all add: st)
  then show "fst (get rd key ?w) =
      (if t = [] then Resolved JNull
       else (case parse rd t of Some u \<Rightarrow> Resolved u | None \<Rightarrow> Unmodelled))"
    by (auto simp: get_accepted [OF f])
qed

text \<open>
  Claim C2 says that \<^verbatim>\<open>set(k, v, t)\<close> followed by \<^verbatim>\<open>get(k)\<close> returns a value deep-equal to
  \<^verbatim>\<open>v\<close> for every Serializable \<^verbatim>\<open>v\<close>. The string \<^verbatim>\<open>5\<close> is stored as the text
  \<^verbatim>\<open>5\<close>, which \<^verbatim>\<open>get\<close> decodes to the number 5.
\<close>

theorem digits_string_counterexample:
  "fst (get example_reader ''k''
         (snd (set_entry example_reader ''k'' (JStr ''5'') (Some (Whole 60)) (serving (\<lambda>_. None))))) =
     Resolved (JNum (Whole 5)) \<and>
   JNum (Whole 5) \<noteq> JStr ''5''"
  by (simp add: set_entry_def serialize_def redis_setex_def sent_def serving_def fault_def
      get_def redis_get_def parse_def JSON_parse_5)

text \<open>
  Claim C2 as amended: for every value that reads back (a boolean, a finite number,
  \<^verbatim>\<open>null\<close>, an array or an object built from such values and from strings, or a string
  that is not empty and is not JSON text itself) and every TTL, when the client accepts
  both commands, \<^verbatim>\<open>set(k, v, t)\<close> resolves to \<^verbatim>\<open>'OK'\<close> and \<^verbatim>\<open>get(k)\<close> right after it
  resolves to \<^verbatim>\<open>v\<close>, a negative zero in \<^verbatim>\<open>v\<close> coming back as the zero.
\<close>

theorem set_then_get:
  assumes "reads_back rd v"
    and "fault (connection w) = None"
    and "faults (connection w) (Suc (length (issued (connection w)))) = None"
  shows "fst (set_entry rd key v ttl w) = Resolved ''OK'' \<and>
         fst (get rd key (snd (set_entry rd key v ttl w))) = Resolved (positive_zero v)"
proof -
  obtain t where s: "serialize rd v = Returned t" and ne: "t \<noteq> []"
    and p: "parse rd t = Some (positive_zero v)"
    using assms(1) by (rule serialize_reads_back)
  show ?thesis
    using set_then_get_text [OF s assms(2,3), of key ttl] ne p by simp
qed

theorem set_then_get_witness:
  "reads_back example_reader
     (JObj [(''1'', JStr ''a''), (''hello'', JStr ''world''),
            (''list'', JArr [JNum (Float ''0.5''), JNum (Float ''9007199254740992''), JNum NegZero,
                             JNum (Whole (- 7)), JBool True, JNull])]) \<and>
   fst (get example_reader ''test-key''
         (snd (set_entry example_reader ''test-key''
                 (JObj [(''1'', JStr ''a''), (''hello'', JStr ''world''),
                        (''list'', JArr [JNum (Float ''0.5''), JNum (Float ''9007199254740992''),
                                         JNum NegZero, JNum (Whole (- 7)), JBool True, JNull])])
                 (Some (Whole 3600)) (serving (\<lambda>_. None))))) =
     Resolved
       (JObj [(''1'', JStr ''a''), (''hello'', JStr ''world''),
              (''list'', JArr [JNum (Float ''0.5''), JNum (Float ''9007199254740992''),
                               JNum (Whole 0), JNum (Whole (- 7)), JBool True, JNull])])"
proof -
  have r: "reads_back example_reader
     (JObj [(''1'', JStr ''a''), (''hello'', JStr ''world''),
            (''list'', JArr [JNum (Float ''0.5''), JNum (Float ''9007199254740992''), JNum NegZero,
                             JNum (Whole (- 7)), JBool True, JNull])])"
    by code_simp
  have accepted: "fault (connection (serving (\<lambda>_. None))) = None"
    "faults (connection (serving (\<lambda>_. None))) (Suc (length (issued (connection (serving (\<lambda>_. None)))))) = None"
    by (simp_all add: serving_def fault_def)
  show ?thesis
    using set_then_get [OF r accepted, of "''test-key''" "Some (Whole 3600)"] r
    by simp
qed

text \<open>
  What becomes of the other values, when the client accepts both commands: the empty
  string is read as absent, a string that is JSON text is read as the value of the text,
  which is never the string itself,
  NaN and the infinities are read as the strings \<^verbatim>\<open>NaN\<close>, \<^verbatim>\<open>Infinity\<close> and
  \<^verbatim>\<open>-Infinity\<close>, and inside an array or an object they are read as \<^verbatim>\<open>null\<close>.
\<close>

lemma set_then_get_others:
  assumes "fault (connection w) = None"
    and "faults (connection w) (Suc (length (issued (connection w)))) = None"
  shows "fst (get rd key (snd (set_entry rd key (JStr []) ttl w))) = Resolved JNull"
    and "s \<noteq> [] \<Longrightarrow> JSON_parse rd s = Parsed u \<Longrightarrow>
         fst (get rd key (snd (set_entry rd key (JStr s) ttl w))) = Resolved u \<and> u \<noteq> JStr s"
    and "fst (get rd key (snd (set_entry rd key (JNum NaN) ttl w))) = Resolved (JStr ''NaN'')"
    and "fst (get rd key (snd (set_entry rd key (JNum PosInfinity) ttl w))) = Resolved (JStr ''Infinity'')"
    and "fst (get rd key (snd (set_entry rd key (JNum NegInfinity) ttl w))) = Resolved (JStr ''-Infinity'')"
    and "writable rd (JArr vs) \<Longrightarrow>
         fst (get rd key (snd (set_entry rd key (JArr vs) ttl w))) = Resolved (json_image (JArr vs))"
    and "writable rd (JObj ms) \<Longrightarrow>
         fst (get rd key (snd (set_entry rd key (JObj ms) ttl w))) = Resolved (json_image (JObj ms))"
proof -
  have structured: "fst (get rd key (snd (set_entry rd key v ttl w))) = Resolved (json_image v)"
    if "writable rd v" and "serialize rd v = JSON_stringify rd v" for v
  proof -
    have s: "serialize rd v = Returned (text_of rd v)"
      using stringify_writable [OF that(1)] that(2) by (simp add: JSON_stringify_def)
    have p: "JSON_parse rd (text_of rd v) = Parsed (json_image v)"
      by (rule JSON_parse_text_of [OF that(1)])
    then have "text_of rd v \<noteq> []"
      using JSON_parse_empty [of rd] by auto
    then show ?thesis
      using set_then_get_text(2) [OF s assms, of key ttl] p by (simp add: parse_def)
  qed
  show "fst (get rd key (snd (set_entry rd key (JArr vs) ttl w))) = Resolved (json_image (JArr vs))"
    if w: "writable rd (JArr vs)"
  proof (rule structured [OF w])
    show "serialize rd (JArr vs) = JSON_stringify rd (JArr vs)"
      using stringify_writable [OF w] by (simp add: serialize_def JSON_stringify_def)
  qed
  show "fst (get rd key (snd (set_entry rd key (JObj ms) ttl w))) = Resolved (json_image (JObj ms))"
    if w: "writable rd (JObj ms)"
  proof (rule structured [OF w])
    show "serialize rd (JObj ms) = JSON_stringify rd (JObj ms)"
      using stringify_writable [OF w] by (simp add: serialize_def JSON_stringify_def)
  qed
  have names: "JSON_parse rd ''NaN'' = SyntaxError" "JSON_parse rd ''Infinity'' = SyntaxError"
    "JSON_parse rd ''-Infinity'' = SyntaxError"
    by (simp_all add: JSON_parse_def scan.simps is_ws_def is_digit_def scan_number_def)
  show "fst (get rd key (snd (set_entry rd key (JStr []) ttl w))) = Resolved JNull"
    using set_then_get_text(2) [OF _ assms, of rd "JStr []" "[]" key ttl]
    by (simp add: serialize_def)
  show "fst (get rd key (snd (set_entry rd key (JStr s) ttl w))) = Resolved u \<and> u \<noteq> JStr s"
    if "s \<noteq> []" "JSON_parse rd s = Parsed u"
    using set_then_get_text(2) [OF _ assms, of rd "JStr s" s key ttl] that
      JSON_parse_not_itself [of rd s]
    by (auto simp: serialize_def parse_def)
  show "fst (get rd key (snd (set_entry rd key (JNum NaN) ttl w))) = Resolved (JStr ''NaN'')"
    using set_then_get_text(2) [OF _ assms, of rd "JNum NaN" "''NaN''" key ttl]
    by (simp add: serialize_def parse_def names)
  show "fst (get rd key (snd (set_entry rd key (JNum PosInfinity) ttl w))) = Resolved (JStr ''Infinity'')"
    using set_then_get_text(2) [OF _ assms, of rd "JNum PosInfinity" "''Infinity''" key ttl]
    by (simp add: serialize_def parse_def names)
  show "fst (get rd key (snd (set_entry rd key (JNum NegInfinity) ttl w))) = Resolved (JStr ''-Infinity'')"
    using set_then_get_text(2) [OF _ assms, of rd "JNum NegInfinity" "''-Infinity''" key ttl]
    by (simp add: serialize_def parse_def names)
qed

end
